theory Spec2Isabelle
  imports Complex_Main "HOL-Library.Multiset"
begin

section \<open>Data model\<close>

text \<open>
  The records follow the classes of \<^verbatim>\<open>rep_validator.js\<close> (\<^verbatim>\<open>Organization\<close>, \<^verbatim>\<open>Day\<close>,
  \<^verbatim>\<open>Employee\<close>, \<^verbatim>\<open>Shift\<close>); the solver \<^verbatim>\<open>CodeBashSolver\<close> of \<^verbatim>\<open>bah3.js\<close> uses the same
  shapes (\<^verbatim>\<open>overtimeModifierPercent\<close>, \<^verbatim>\<open>fixedDailyCost\<close>, \<^verbatim>\<open>isOpen\<close>, \<^verbatim>\<open>dailyRevenue\<close>,
  \<^verbatim>\<open>knownSkills\<close> for \<open>overtimeMod\<close>, \<open>fixedCost\<close>, \<open>\<not> isClosed\<close>, \<open>revenue\<close>,
  \<open>initialSkills\<close>). All numeric fields are read with \<^verbatim>\<open>parseInt\<close>, hence \<open>int\<close>: the
  value of a double that holds an integer.
  Fields called \<^verbatim>\<open>id\<close>, \<^verbatim>\<open>start\<close>, \<^verbatim>\<open>end\<close> and \<^verbatim>\<open>skill\<close> carry the name of their
  class, since \<open>id\<close> and \<open>end\<close> are taken in Isabelle.
\<close>

type_synonym skill = string

text \<open>
  The programs keep values per skill in plain objects (\<^verbatim>\<open>{}\<close>), which inherit the properties
  of \<^verbatim>\<open>Object.prototype\<close>. For a skill with one of these names, a read that finds no own
  property yields the inherited value (a function, or the prototype itself for
  \<^verbatim>\<open>__proto__\<close>) where it yields \<^verbatim>\<open>undefined\<close> for every other skill; an assignment to
  \<^verbatim>\<open>__proto__\<close> of a value that is not an object is ignored.
\<close>

definition objectPrototypeNames :: "string list" where
  "objectPrototypeNames =
     [''constructor'', ''__proto__'', ''hasOwnProperty'', ''isPrototypeOf'',
      ''propertyIsEnumerable'', ''toLocaleString'', ''toString'', ''valueOf'',
      ''__defineGetter__'', ''__defineSetter__'', ''__lookupGetter__'', ''__lookupSetter__'']"

definition inheritedName :: "string \<Rightarrow> bool" where
  "inheritedName k = (k \<in> set objectPrototypeNames)"

record organization =
  overtimeMod :: int
  fixedCost :: int

record day =
  dayId :: int
  isClosed :: bool
  dayStart :: int
  dayEnd :: int
  revenue :: int
  requiredSkills :: "skill list"

record employee =
  empId :: int
  maxHoursPerWeek :: int
  salaryPerHour :: int
  learningRate :: int
  teachingRate :: int
  initialSkills :: "skill set"
  vacationDays :: "int set"

record shift =
  employeeId :: int
  shiftStart :: int
  shiftEnd :: int
  shiftSkill :: skill

text \<open>\<^verbatim>\<open>Shift.duration\<close> is set to \<^verbatim>\<open>end - start\<close> by the constructor.\<close>

definition duration :: "shift \<Rightarrow> int" where
  "duration s = shiftEnd s - shiftStart s"

text \<open>
  \<^verbatim>\<open>this.employees[emp.id] = emp\<close> for every employee line in turn: a later line with
  the same id replaces an earlier one.
\<close>

definition getEmployee :: "employee list \<Rightarrow> int \<Rightarrow> employee option" where
  "getEmployee es i = find (\<lambda>e. empId e = i) (rev es)"

text \<open>
  Numbers are IEEE doubles in all programs. Sums, differences and products of integers are
  exact in doubles as long as the operands and the result are below \<open>2^53\<close> in magnitude,
  and the model computes them exactly. \<open>roundDouble\<close> is the rounding of a rational number
  to the nearest double, ties to even, with 53 significant bits (overflow and subnormal
  numbers are not modelled); the model applies it to the product and to the quotient of
  the overtime rate. The other quotients of the programs (the week index of a day, the
  capacity and the profit of a day) are modelled in exact arithmetic. \<open>bits\<close> is the
  number of binary digits of a natural number, \<open>ilog2 x\<close> the binary exponent of a positive
  rational \<open>x\<close> (the \<open>e\<close> with \<open>2^e \<le> x < 2^(e+1)\<close>), and \<open>roundHalfEven\<close> the rounding to
  the nearest integer, ties to even.
\<close>

fun bits :: "nat \<Rightarrow> nat" where
  "bits n = (if n = 0 then 0 else Suc (bits (n div 2)))"

declare bits.simps [simp del]

definition ilog2 :: "rat \<Rightarrow> int" where
  "ilog2 x = (if x \<ge> 1 then int (bits (nat \<lfloor>x\<rfloor>)) - 1
              else - int (bits (nat (\<lceil>1 / x\<rceil> - 1))))"

definition roundHalfEven :: "rat \<Rightarrow> int" where
  "roundHalfEven x =
     (let f = \<lfloor>x\<rfloor>; d = x - of_int f
      in if d < 1 / 2 then f else if d > 1 / 2 then f + 1 else if even f then f else f + 1)"

definition roundDouble :: "rat \<Rightarrow> rat" where
  "roundDouble x =
     (if x = 0 then 0
      else (let ulp = 2 powi (ilog2 \<bar>x\<bar> - 52)
            in of_int (roundHalfEven (x / ulp)) * ulp))"

text \<open>
  \<^verbatim>\<open>Math.floor(employee.salaryPerHour * overtimeMod / 100)\<close>, the overtime rate of all
  programs: the product is rounded to a double, then the quotient is, and the floor of a
  double is exact.
\<close>

definition overtimeRate :: "organization \<Rightarrow> employee \<Rightarrow> int" where
  "overtimeRate org e =
     \<lfloor>roundDouble (roundDouble (rat_of_int (salaryPerHour e * overtimeMod org)) / 100)\<rfloor>"

section \<open>The validator of \<^verbatim>\<open>rep_validator.js\<close>: payroll\<close>

text \<open>
  \<^verbatim>\<open>calculatePayroll(empId, shiftDuration)\<close>. The counter \<^verbatim>\<open>this.weeklyHours\<close> is a
  dictionary read with \<^verbatim>\<open>|| 0\<close>: a total function that is 0 where nothing was stored.
  The function returns the cost and the updated counter.
\<close>

definition calculatePayroll ::
  "organization \<Rightarrow> employee \<Rightarrow> (int \<Rightarrow> int) \<Rightarrow> int \<Rightarrow> int \<Rightarrow> int \<times> (int \<Rightarrow> int)" where
  "calculatePayroll org e wh i shiftDuration =
     (let baseHoursRemaining = maxHoursPerWeek e - wh i;
          baseHours = min shiftDuration (max 0 baseHoursRemaining);
          overtimeHours = shiftDuration - baseHours;
          cost = baseHours * salaryPerHour e + overtimeHours * overtimeRate org e
      in (cost, wh(i := wh i + shiftDuration)))"

section \<open>The validator of \<^verbatim>\<open>rep_validator.js\<close>: state and error log\<close>

text \<open>
  An access to a property of \<^verbatim>\<open>undefined\<close> throws a \<^verbatim>\<open>TypeError\<close>, which nothing in
  either program catches: the run ends there.
\<close>

datatype jsError = TypeError

text \<open>
  The messages passed to \<^verbatim>\<open>_logError\<close> are template strings; a message is modelled by
  its template and the values interpolated into it, in the order of the template.
\<close>

datatype violation =
    OutputLineCount nat nat
  | MalformedDayId int
  | NonExistentDay int
  | ClosedDayHasShifts int
  | MalformedShiftToken int shift
  | NonExistentEmployee int int
  | OnVacationDay int int
  | OutsideStoreHours int int int int int int
  | OverlappingShifts int int

text \<open>
  The fields of \<^verbatim>\<open>PlanningValidator\<close> that change while scoring. \<^verbatim>\<open>skillPoints\<close> is a
  dictionary of dictionaries, always read with \<^verbatim>\<open>|| 0\<close>. For a skill with the name of a
  property of \<^verbatim>\<open>Object.prototype\<close> and no points stored, the value that \<^verbatim>\<open>isTrained\<close> reads
  is the inherited one, which is not a number and fails the comparison \<^verbatim>\<open>>= 1000\<close> as 0
  does: the model has 0 there (\<^verbatim>\<open>updateTraining\<close> never gets to reading or writing the
  points of such a skill).
\<close>

record vstate =
  skillPoints :: "int \<Rightarrow> skill \<Rightarrow> int"
  weeklyHours :: "int \<Rightarrow> int"
  totalProfit :: rat
  totalPayroll :: int
  totalRevenuePotential :: int
  isValid :: bool
  validationErrors :: "violation list"

definition logError :: "violation \<Rightarrow> vstate \<Rightarrow> vstate" where
  "logError message st =
     st\<lparr>validationErrors :=
          (if message \<in> set (validationErrors st) then validationErrors st
           else validationErrors st @ [message]),
        isValid := False\<rparr>"

definition isTrained :: "vstate \<Rightarrow> int \<Rightarrow> skill \<Rightarrow> bool" where
  "isTrained st i k = (skillPoints st i k \<ge> 1000)"

text \<open>
  The state after \<^verbatim>\<open>parseInput\<close>: 1000 points for every initial skill of every employee
  line (lines with the same id share one dictionary of points). The assignment of 1000 to
  the property \<^verbatim>\<open>__proto__\<close> stores nothing.
\<close>

definition initialState :: "employee list \<Rightarrow> vstate" where
  "initialState es =
     \<lparr>skillPoints = (\<lambda>i k. if k \<noteq> ''__proto__''
                                \<and> list_ex (\<lambda>e. empId e = i \<and> k \<in> initialSkills e) es
                             then 1000 else 0),
      weeklyHours = (\<lambda>_. 0),
      totalProfit = 0, totalPayroll = 0, totalRevenuePotential = 0,
      isValid = True, validationErrors = []\<rparr>"

section \<open>The validator of \<^verbatim>\<open>rep_validator.js\<close>: \<^verbatim>\<open>calculateCapacity\<close>\<close>

text \<open>\<^verbatim>\<open>Day.totalSkillHours\<close>; \<^verbatim>\<open>Day.duration\<close> is \<^verbatim>\<open>end - start\<close>.\<close>

definition totalSkillHours :: "day \<Rightarrow> int" where
  "totalSkillHours dy =
     (if isClosed dy then 0 else (dayEnd dy - dayStart dy) * int (length (requiredSkills dy)))"

text \<open>
  The loop over \<^verbatim>\<open>employeeShiftsToday[shift.employeeId]\<close>, which stops at the first
  interval that overlaps the shift.
\<close>

fun findOverlap :: "shift \<Rightarrow> (int \<times> int) list \<Rightarrow> bool" where
  "findOverlap s [] = False"
| "findOverlap s ((sStart, sEnd) # rest) =
     (if max (shiftStart s) sStart < min (shiftEnd s) sEnd then True else findOverlap s rest)"

text \<open>
  \<^verbatim>\<open>coverageMap[h][skill]\<close> holds the pair \<^verbatim>\<open>[trained_count, untrained_count]\<close> and
  is read as \<^verbatim>\<open>[0, 0]\<close> where nothing was stored. \<open>addCoverage\<close> is the body of the
  loop over the hours of a shift. For a skill with the name of a property of
  \<^verbatim>\<open>Object.prototype\<close>, \<^verbatim>\<open>coverageMap[h][skill] || [0, 0]\<close> is the inherited value and not a
  pair of counts: its elements 0 and 1 are \<^verbatim>\<open>undefined\<close>, then \<^verbatim>\<open>NaN\<close> after \<^verbatim>\<open>+= 1\<close>, and
  fail each of the tests \<^verbatim>\<open>> 0\<close>, \<^verbatim>\<open>=== 1\<close> and \<^verbatim>\<open>> 1\<close> of the coverage as the pair
  \<^verbatim>\<open>[0, 0]\<close> does. The model leaves the pair of such a skill at \<open>(0, 0)\<close>.
\<close>

definition addCoverage ::
  "bool \<Rightarrow> skill \<Rightarrow> int \<Rightarrow> (int \<Rightarrow> skill \<Rightarrow> nat \<times> nat) \<Rightarrow> (int \<Rightarrow> skill \<Rightarrow> nat \<times> nat)" where
  "addCoverage isEmpTrained k h cm =
     (if inheritedName k then cm
      else cm(h := (cm h)(k := (if isEmpTrained then (fst (cm h k) + 1, snd (cm h k))
                                else (fst (cm h k), snd (cm h k) + 1)))))"

text \<open>The locals of \<^verbatim>\<open>calculateCapacity\<close> that its loop over the shifts updates.\<close>

record capAcc =
  accState :: vstate
  employeeShiftsToday :: "int \<Rightarrow> (int \<times> int) list"
  payrollD :: int
  coverageMap :: "int \<Rightarrow> skill \<Rightarrow> nat \<times> nat"

text \<open>The body of the loop over the shifts of the day.\<close>

definition shiftBody :: "organization \<Rightarrow> employee list \<Rightarrow> day \<Rightarrow> shift \<Rightarrow> capAcc \<Rightarrow> capAcc" where
  "shiftBody org es dy s acc =
     (case getEmployee es (employeeId s) of
        None \<Rightarrow>
          acc\<lparr>accState := logError (NonExistentEmployee (dayId dy) (employeeId s)) (accState acc)\<rparr>
      | Some emp \<Rightarrow>
          (let st1 = (if dayId dy \<in> vacationDays emp
                      then logError (OnVacationDay (dayId dy) (employeeId s)) (accState acc)
                      else accState acc);
               st2 = (if shiftStart s < dayStart dy \<or> shiftEnd s > dayEnd dy
                      then logError (OutsideStoreHours (dayId dy) (employeeId s) (shiftStart s)
                                       (shiftEnd s) (dayStart dy) (dayEnd dy)) st1
                      else st1);
               today = employeeShiftsToday acc (employeeId s);
               overlap = findOverlap s today;
               st3 = (if overlap then logError (OverlappingShifts (dayId dy) (employeeId s)) st2
                      else st2);
               today' = (if overlap then today else today @ [(shiftStart s, shiftEnd s)]);
               pay = calculatePayroll org emp (weeklyHours st3) (employeeId s) (duration s);
               st4 = st3\<lparr>weeklyHours := snd pay\<rparr>;
               isEmpTrained = isTrained st4 (employeeId s) (shiftSkill s)
           in \<lparr>accState = st4,
               employeeShiftsToday = (employeeShiftsToday acc)(employeeId s := today'),
               payrollD = payrollD acc + fst pay,
               coverageMap = fold (addCoverage isEmpTrained (shiftSkill s))
                               [shiftStart s..shiftEnd s - 1] (coverageMap acc)\<rparr>))"

definition shiftLoop :: "organization \<Rightarrow> employee list \<Rightarrow> day \<Rightarrow> shift list \<Rightarrow> vstate \<Rightarrow> capAcc" where
  "shiftLoop org es dy shifts st =
     fold (shiftBody org es dy) shifts
       \<lparr>accState = st, employeeShiftsToday = (\<lambda>_. []), payrollD = 0,
        coverageMap = (\<lambda>_ _. (0, 0))\<rparr>"

text \<open>The value of the local \<^verbatim>\<open>hourlyCoverage\<close> for a pair of counts.\<close>

definition hourlyCoverage :: "nat \<times> nat \<Rightarrow> rat" where
  "hourlyCoverage c =
     (if fst c > 0 then 1 else if snd c = 1 then 1 / 2 else if snd c > 1 then 1 else 0)"

text \<open>A loop whose body may throw: the first error ends it.\<close>

fun foldE :: "('a \<Rightarrow> 'b \<Rightarrow> jsError + 'b) \<Rightarrow> 'a list \<Rightarrow> 'b \<Rightarrow> jsError + 'b" where
  "foldE f [] a = Inr a"
| "foldE f (x # xs) a = (case f x a of Inl e \<Rightarrow> Inl e | Inr a' \<Rightarrow> foldE f xs a')"

text \<open>
  The loop that finds \<^verbatim>\<open>maxRate\<close>. \<^verbatim>\<open>this.employees[shift.employeeId].teachingRate\<close>
  is evaluated only when the four conditions hold, and throws when the employee does not
  exist.
\<close>

definition maxRateBody ::
  "employee list \<Rightarrow> vstate \<Rightarrow> skill \<Rightarrow> int \<Rightarrow> shift \<Rightarrow> int \<Rightarrow> jsError + int" where
  "maxRateBody es st k h s maxRate =
     (if shiftSkill s = k \<and> shiftStart s \<le> h \<and> h < shiftEnd s \<and> isTrained st (employeeId s) k
      then (case getEmployee es (employeeId s) of
              None \<Rightarrow> Inl TypeError
            | Some e \<Rightarrow> Inr (max maxRate (teachingRate e)))
      else Inr maxRate)"

text \<open>
  The body of the two nested loops over the required skills and the open hours: the
  accumulator is \<^verbatim>\<open>achievedSkillHours\<close> and \<^verbatim>\<open>hourlyTeachers\<close> (read with \<^verbatim>\<open>|| 0\<close> by
  \<^verbatim>\<open>updateTraining\<close>).
\<close>

definition hourCell ::
  "employee list \<Rightarrow> vstate \<Rightarrow> shift list \<Rightarrow> (int \<Rightarrow> skill \<Rightarrow> nat \<times> nat) \<Rightarrow> skill \<Rightarrow> int \<Rightarrow>
     rat \<times> (int \<Rightarrow> skill \<Rightarrow> int) \<Rightarrow> jsError + rat \<times> (int \<Rightarrow> skill \<Rightarrow> int)" where
  "hourCell es st shifts cm k h a =
     (if fst (cm h k) > 0
      then (case foldE (maxRateBody es st k h) shifts 0 of
              Inl e \<Rightarrow> Inl e
            | Inr maxRate \<Rightarrow>
                Inr (fst a + hourlyCoverage (cm h k), (snd a)(h := (snd a h)(k := maxRate))))
      else Inr (fst a + hourlyCoverage (cm h k), snd a))"

definition achievedLoop ::
  "employee list \<Rightarrow> vstate \<Rightarrow> day \<Rightarrow> shift list \<Rightarrow> (int \<Rightarrow> skill \<Rightarrow> nat \<times> nat) \<Rightarrow>
     jsError + rat \<times> (int \<Rightarrow> skill \<Rightarrow> int)" where
  "achievedLoop es st dy shifts cm =
     foldE (\<lambda>k. foldE (hourCell es st shifts cm k) [dayStart dy..dayEnd dy - 1])
       (requiredSkills dy) (0, (\<lambda>_ _. 0))"

text \<open>The result of \<^verbatim>\<open>calculateCapacity\<close>, with the state it leaves.\<close>

record metrics =
  capacityD :: rat
  metricsPayrollD :: int
  hourlyTeachers :: "int \<Rightarrow> skill \<Rightarrow> int"
  metricsState :: vstate

definition calculateCapacity ::
  "organization \<Rightarrow> employee list \<Rightarrow> day \<Rightarrow> shift list \<Rightarrow> vstate \<Rightarrow> jsError + metrics" where
  "calculateCapacity org es dy shifts st =
     (let acc = shiftLoop org es dy shifts st in
      case achievedLoop es (accState acc) dy shifts (coverageMap acc) of
        Inl e \<Rightarrow> Inl e
      | Inr a \<Rightarrow>
          (let totalNeed = totalSkillHours dy in
           Inr \<lparr>capacityD = (if totalNeed > 0 then fst a / rat_of_int totalNeed else 0),
                metricsPayrollD = payrollD acc,
                hourlyTeachers = snd a,
                metricsState = accState acc\<rparr>))"

section \<open>The validator of \<^verbatim>\<open>rep_validator.js\<close>: \<^verbatim>\<open>updateTraining\<close>\<close>

text \<open>
  \<^verbatim>\<open>empSkillHours[empId][skill]\<close>: the hours of all shifts of the employee on the skill,
  in the order of the shifts.
\<close>

definition empSkillHours :: "shift list \<Rightarrow> int \<Rightarrow> skill \<Rightarrow> int list" where
  "empSkillHours shifts i k =
     concat (map (\<lambda>s. [shiftStart s..shiftEnd s - 1])
       (filter (\<lambda>s. employeeId s = i \<and> shiftSkill s = k) shifts))"

text \<open>The gain of one hour: the body of the loop over \<^verbatim>\<open>skillsWorked[skill]\<close>.\<close>

definition hourGain :: "employee \<Rightarrow> (int \<Rightarrow> skill \<Rightarrow> int) \<Rightarrow> skill \<Rightarrow> int \<Rightarrow> int" where
  "hourGain e ht k h =
     (let baseGain = learningRate e; teacherRate = ht h k
      in if teacherRate > 0 then baseGain * teacherRate else baseGain)"

text \<open>
  The body of the loops over the employees and skills of \<^verbatim>\<open>empSkillHours\<close>, for one
  pair. \<^verbatim>\<open>employee.learningRate\<close> is read inside the loop over the hours, so an employee
  that does not exist throws only when there is an hour to add. For a skill with the name
  of a property of \<^verbatim>\<open>Object.prototype\<close>, \<^verbatim>\<open>skillsWorked[skill]\<close> is the inherited function,
  and the loop over it throws a \<^verbatim>\<open>TypeError\<close> (it is not iterable); \<^verbatim>\<open>__proto__\<close> is never
  a key of \<^verbatim>\<open>skillsWorked\<close>.
\<close>

definition trainPair ::
  "employee list \<Rightarrow> shift list \<Rightarrow> (int \<Rightarrow> skill \<Rightarrow> int) \<Rightarrow> int \<times> skill \<Rightarrow> vstate \<Rightarrow> jsError + vstate" where
  "trainPair es shifts ht p st =
     (let i = fst p; k = snd p in
      if isTrained st i k then Inr st
      else if inheritedName k then (if k = ''__proto__'' then Inr st else Inl TypeError)
      else if empSkillHours shifts i k = [] then Inr st
      else (case getEmployee es i of
              None \<Rightarrow> Inl TypeError
            | Some e \<Rightarrow>
                (let totalGain = sum_list (map (hourGain e ht k) (empSkillHours shifts i k))
                 in Inr (st\<lparr>skillPoints :=
                           (skillPoints st)(i := (skillPoints st i)(k := skillPoints st i k + totalGain))\<rparr>))))"

text \<open>
  The first loop fills \<^verbatim>\<open>empSkillHours\<close>. For a shift on a skill with the name of a
  property of \<^verbatim>\<open>Object.prototype\<close>, \<^verbatim>\<open>empSkillHours[id][skill] || []\<close> is the inherited
  value, which has no method \<^verbatim>\<open>push\<close>: the first hour of such a shift throws a
  \<^verbatim>\<open>TypeError\<close>, before any points are changed. In the second loop the pairs are visited in
  the key order of the two dictionaries. Each pair reads and writes the points of that pair
  only, so the order does not change the result.
\<close>

definition updateTraining ::
  "employee list \<Rightarrow> shift list \<Rightarrow> (int \<Rightarrow> skill \<Rightarrow> int) \<Rightarrow> vstate \<Rightarrow> jsError + vstate" where
  "updateTraining es shifts ht st =
     (if list_ex (\<lambda>s. inheritedName (shiftSkill s) \<and> shiftStart s < shiftEnd s) shifts
      then Inl TypeError
      else foldE (trainPair es shifts ht)
             (remdups (map (\<lambda>s. (employeeId s, shiftSkill s)) shifts)) st)"

section \<open>The validator of \<^verbatim>\<open>rep_validator.js\<close>: \<^verbatim>\<open>validateAndScore\<close>\<close>

text \<open>
  \<^verbatim>\<open>this.days\<close> is a dictionary filled from the day lines in turn (a later line with the
  same id replaces an earlier one); the days are visited in ascending order of their ids.
\<close>

definition lookupDay :: "day list \<Rightarrow> int \<Rightarrow> day option" where
  "lookupDay ds i = find (\<lambda>d. dayId d = i) (rev ds)"

definition dayIds :: "day list \<Rightarrow> int list" where
  "dayIds ds = sort (remdups (map dayId ds))"

text \<open>
  The body of the loop over the days. The schedule is a dictionary read with \<^verbatim>\<open>|| []\<close>.
\<close>

definition dayProfit :: "organization \<Rightarrow> day \<Rightarrow> rat \<Rightarrow> int \<Rightarrow> rat" where
  "dayProfit org dy capacity payroll =
     rat_of_int (revenue dy) * (capacity ^ 2) - rat_of_int payroll - rat_of_int (fixedCost org)"

definition accumulate :: "day \<Rightarrow> rat \<Rightarrow> int \<Rightarrow> vstate \<Rightarrow> vstate" where
  "accumulate dy profitD payroll st =
     st\<lparr>totalProfit := totalProfit st + profitD,
        totalPayroll := totalPayroll st + payroll,
        totalRevenuePotential := totalRevenuePotential st + revenue dy\<rparr>"

definition dayBody ::
  "organization \<Rightarrow> employee list \<Rightarrow> day list \<Rightarrow> (int \<Rightarrow> shift list) \<Rightarrow> int \<Rightarrow> vstate \<Rightarrow> jsError + vstate" where
  "dayBody org es ds schedule i st =
     (case lookupDay ds i of
        None \<Rightarrow> Inl TypeError
      | Some dy \<Rightarrow>
          (let shifts = schedule i;
               st1 = (if i mod 7 = 0 then st\<lparr>weeklyHours := (\<lambda>_. 0)\<rparr> else st)
           in if isClosed dy
              then Inr (accumulate dy (- rat_of_int (fixedCost org)) 0 st1)
              else (case calculateCapacity org es dy shifts st1 of
                      Inl e \<Rightarrow> Inl e
                    | Inr m \<Rightarrow>
                        (case updateTraining es shifts (hourlyTeachers m) (metricsState m) of
                           Inl e \<Rightarrow> Inl e
                         | Inr st2 \<Rightarrow>
                             Inr (accumulate dy
                                    (dayProfit org dy (capacityD m) (metricsPayrollD m))
                                    (metricsPayrollD m) st2)))))"

text \<open>
  What the final section prints: the totals of a valid schedule, or the status line
  \<^verbatim>\<open>INVALID SCHEDULE (Score: 0)\<close> with the list of errors. Nothing is printed when the
  state was already invalid on entry.
\<close>

datatype report =
    NoReport
  | ValidSchedule rat int int int
  | InvalidSchedule int "violation list"

definition finalOutput :: "organization \<Rightarrow> day list \<Rightarrow> vstate \<Rightarrow> report" where
  "finalOutput org ds st =
     (if isValid st
      then ValidSchedule (totalProfit st) (totalPayroll st) (totalRevenuePotential st)
             (int (length (dayIds ds)) * fixedCost org)
      else InvalidSchedule 0 (validationErrors st))"

definition validateAndScore ::
  "organization \<Rightarrow> employee list \<Rightarrow> day list \<Rightarrow> (int \<Rightarrow> shift list) \<Rightarrow> vstate \<Rightarrow>
     jsError + vstate \<times> report" where
  "validateAndScore org es ds schedule st =
     (if \<not> isValid st then Inr (st, NoReport)
      else (case foldE (dayBody org es ds schedule) (dayIds ds) st of
              Inl e \<Rightarrow> Inl e
            | Inr st' \<Rightarrow> Inr (st', finalOutput org ds st')))"

section \<open>The scorer of \<^verbatim>\<open>bah3.js\<close>: payroll of one hour\<close>

text \<open>\<^verbatim>\<open>EmployeeState.getWeekIndex\<close>: \<^verbatim>\<open>Math.floor((dayId - 1) / 7)\<close>.\<close>

definition getWeekIndex :: "int \<Rightarrow> int" where
  "getWeekIndex d = \<lfloor>rat_of_int (d - 1) / 7\<rfloor>"

text \<open>
  \<^verbatim>\<open>EmployeeState.weeklyHours\<close> maps a week index to the hours worked in that week,
  read with \<^verbatim>\<open>|| 0\<close>. \<open>getHoursThisWeek\<close> and \<open>addHour\<close> are the methods of that name,
  on the counter of one employee.
\<close>

definition getHoursThisWeek :: "(int \<Rightarrow> int) \<Rightarrow> int \<Rightarrow> int" where
  "getHoursThisWeek w d = w (getWeekIndex d)"

definition addHour :: "(int \<Rightarrow> int) \<Rightarrow> int \<Rightarrow> (int \<Rightarrow> int)" where
  "addHour w d = w(getWeekIndex d := w (getWeekIndex d) + 1)"

text \<open>
  The body of the payroll loop of \<^verbatim>\<open>calculateScore\<close> for one active employee: the hour
  is added first, then the new total is compared with \<^verbatim>\<open><=\<close>. It returns the pay of
  the hour and the updated counter.
\<close>

definition payHour ::
  "organization \<Rightarrow> employee \<Rightarrow> (int \<Rightarrow> int) \<Rightarrow> int \<Rightarrow> int \<times> (int \<Rightarrow> int)" where
  "payHour org e w d =
     (let w' = addHour w d;
          hoursThisWeek = getHoursThisWeek w' d
      in (if hoursThisWeek \<le> maxHoursPerWeek e then salaryPerHour e else overtimeRate org e, w'))"

section \<open>The scorer of \<^verbatim>\<open>bah3.js\<close>: \<^verbatim>\<open>CodeBashSolver.calculateScore\<close>\<close>

text \<open>
  The state of one simulation: \<^verbatim>\<open>simEmployees\<close> (of which only \<^verbatim>\<open>knownSkills\<close> changes)
  and \<^verbatim>\<open>employeeStates\<close>, both keyed by the employee id, and the locals of the loop over
  the days. \<^verbatim>\<open>simEmployees\<close> and \<^verbatim>\<open>employeeStates\<close> have the keys of \<^verbatim>\<open>this.employees\<close>:
  a \<^verbatim>\<open>get\<close> of another id yields \<^verbatim>\<open>undefined\<close>, and the access to a property of it
  throws. \<^verbatim>\<open>newSkillsLearned\<close> is a \<^verbatim>\<open>Map\<close> from employee id to skill.
\<close>

record simState =
  knownSkills :: "int \<Rightarrow> skill set"
  esWeeklyHours :: "int \<Rightarrow> int \<Rightarrow> int"
  trainingPoints :: "int \<Rightarrow> skill \<Rightarrow> int"
  newSkillsLearned :: "int \<rightharpoonup> skill"
  dailyPayroll :: int
  achievedSkillHours :: rat

definition initialSim :: "employee list \<Rightarrow> simState" where
  "initialSim es =
     \<lparr>knownSkills = (\<lambda>i. case getEmployee es i of Some e \<Rightarrow> initialSkills e | None \<Rightarrow> {}),
      esWeeklyHours = (\<lambda>_ _. 0),
      trainingPoints = (\<lambda>_ _. 0),
      newSkillsLearned = Map.empty,
      dailyPayroll = 0,
      achievedSkillHours = 0\<rparr>"

text \<open>Step 1 of the hour: the staged promotions are applied and the stage is cleared.\<close>

definition promote :: "simState \<Rightarrow> simState" where
  "promote st =
     st\<lparr>knownSkills :=
          (\<lambda>i. case newSkillsLearned st i of
                  None \<Rightarrow> knownSkills st i
                | Some k \<Rightarrow> insert k (knownSkills st i)),
        newSkillsLearned := Map.empty\<rparr>"

text \<open>\<^verbatim>\<open>s.start <= h && s.end > h + 0\<close>.\<close>

definition activeAt :: "int \<Rightarrow> shift \<Rightarrow> bool" where
  "activeAt h s = (shiftStart s \<le> h \<and> shiftEnd s > h + 0)"

text \<open>
  The elements of a list in the order of their first occurrence: the iteration order of
  a \<^verbatim>\<open>Set\<close> built from the list.
\<close>

definition firstOccurrences :: "'a list \<Rightarrow> 'a list" where
  "firstOccurrences xs = rev (remdups (rev xs))"

text \<open>
  Step 2, for one required skill: what is added to \<^verbatim>\<open>achievedSkillHours\<close>, given the
  active shifts of that skill.
\<close>

definition skillCoverage :: "(int \<Rightarrow> skill set) \<Rightarrow> shift list \<Rightarrow> skill \<Rightarrow> rat" where
  "skillCoverage known shiftsForSkill k =
     (let trainedEmployees = filter (\<lambda>s. k \<in> known (employeeId s)) shiftsForSkill;
          untrainedEmployees = filter (\<lambda>s. k \<notin> known (employeeId s)) shiftsForSkill
      in if length trainedEmployees > 0 then 1
         else if length untrainedEmployees \<ge> 2 then 1
         else if length untrainedEmployees = 1 then 1 / 2
         else 0)"

definition capacityBody ::
  "employee list \<Rightarrow> shift list \<Rightarrow> skill \<Rightarrow> simState \<Rightarrow> jsError + simState" where
  "capacityBody es activeShifts k st =
     (let shiftsForSkill = filter (\<lambda>s. shiftSkill s = k) activeShifts in
      if length shiftsForSkill = 0 then Inr st
      else if list_ex (\<lambda>s. getEmployee es (employeeId s) = None) shiftsForSkill then Inl TypeError
      else Inr (st\<lparr>achievedSkillHours :=
                    achievedSkillHours st + skillCoverage (knownSkills st) shiftsForSkill k\<rparr>))"

text \<open>Step 3, for one active employee.\<close>

definition payrollBody ::
  "organization \<Rightarrow> employee list \<Rightarrow> int \<Rightarrow> int \<Rightarrow> simState \<Rightarrow> jsError + simState" where
  "payrollBody org es d i st =
     (case getEmployee es i of
        None \<Rightarrow> Inl TypeError
      | Some e \<Rightarrow>
          (let pay = payHour org e (esWeeklyHours st i) d
           in Inr (st\<lparr>esWeeklyHours := (esWeeklyHours st)(i := snd pay),
                      dailyPayroll := dailyPayroll st + fst pay\<rparr>)))"

text \<open>
  Step 4: the first loop fills \<^verbatim>\<open>teachersBySkill\<close> from the shifts of employees who know
  the skill of their shift (\<^verbatim>\<open>teachersBySkill.get(shift.skill) || 0\<close> is the current
  maximum); the other shifts are the learners.
\<close>

definition teacherBody ::
  "employee list \<Rightarrow> (int \<Rightarrow> skill set) \<Rightarrow> shift \<Rightarrow> (skill \<rightharpoonup> int) \<Rightarrow> jsError + (skill \<rightharpoonup> int)" where
  "teacherBody es known s tb =
     (case getEmployee es (employeeId s) of
        None \<Rightarrow> Inl TypeError
      | Some e \<Rightarrow>
          if shiftSkill s \<in> known (employeeId s)
          then (let currentMax = (case tb (shiftSkill s) of Some r \<Rightarrow> r | None \<Rightarrow> 0)
                in if teachingRate e > currentMax then Inr (tb(shiftSkill s \<mapsto> teachingRate e))
                   else Inr tb)
          else Inr tb)"

text \<open>
  The second loop, for one learner shift: \<^verbatim>\<open>teacherRate > 0 ? teacherRate : 1\<close>, where
  \<^verbatim>\<open>teacherRate\<close> is \<^verbatim>\<open>undefined\<close> when the skill has no teacher.
  \<^verbatim>\<open>EmployeeState.trainingPoints\<close> is a plain object read with \<^verbatim>\<open>|| 0\<close>. For a skill with
  the name of a property of \<^verbatim>\<open>Object.prototype\<close>, \<^verbatim>\<open>addTrainingPoints\<close> adds the points to
  the inherited value, which gives a string; the string fails the test \<^verbatim>\<open>>= 1000\<close>, so the
  skill is never staged. The model leaves the points of such a skill unchanged: they stand
  for no number of the program.
\<close>

definition multiplier :: "(skill \<rightharpoonup> int) \<Rightarrow> skill \<Rightarrow> int" where
  "multiplier tb k = (case tb k of Some teacherRate \<Rightarrow> if teacherRate > 0 then teacherRate else 1
                      | None \<Rightarrow> 1)"

definition learnerBody ::
  "employee list \<Rightarrow> (skill \<rightharpoonup> int) \<Rightarrow> shift \<Rightarrow> simState \<Rightarrow> jsError + simState" where
  "learnerBody es tb learnerShift st =
     (case getEmployee es (employeeId learnerShift) of
        None \<Rightarrow> Inl TypeError
      | Some learner \<Rightarrow>
          (let i = employeeId learnerShift;
               k = shiftSkill learnerShift;
               pointsGained = learningRate learner * multiplier tb k
           in if k \<notin> knownSkills st (empId learner)
              then (if inheritedName k then Inr st
                    else (let st' = st\<lparr>trainingPoints :=
                                     (trainingPoints st)
                                       (i := (trainingPoints st i)
                                          (k := trainingPoints st i k + pointsGained))\<rparr>
                          in if trainingPoints st' i k \<ge> 1000
                             then Inr (st'\<lparr>newSkillsLearned :=
                                            (newSkillsLearned st')(empId learner \<mapsto> k)\<rparr>)
                             else Inr st'))
              else Inr st))"

definition trainingStep :: "employee list \<Rightarrow> shift list \<Rightarrow> simState \<Rightarrow> jsError + simState" where
  "trainingStep es activeShifts st =
     (case foldE (teacherBody es (knownSkills st)) activeShifts Map.empty of
        Inl e \<Rightarrow> Inl e
      | Inr teachersBySkill \<Rightarrow>
          foldE (learnerBody es teachersBySkill)
            (filter (\<lambda>s. shiftSkill s \<notin> knownSkills st (employeeId s)) activeShifts) st)"

text \<open>The body of the loop over the hours of an open day.\<close>

definition hourStep ::
  "organization \<Rightarrow> employee list \<Rightarrow> day \<Rightarrow> shift list \<Rightarrow> int \<Rightarrow> simState \<Rightarrow> jsError + simState" where
  "hourStep org es dy shifts h st =
     (let st1 = promote st;
          activeShifts = filter (activeAt h) shifts;
          activeEmployees = firstOccurrences (map employeeId activeShifts)
      in case foldE (capacityBody es activeShifts) (requiredSkills dy) st1 of
           Inl e \<Rightarrow> Inl e
         | Inr st2 \<Rightarrow>
             (case foldE (payrollBody org es (dayId dy)) activeEmployees st2 of
                Inl e \<Rightarrow> Inl e
              | Inr st3 \<Rightarrow> trainingStep es activeShifts st3))"

text \<open>
  The body of the loop over the days: the score of the day and the state after it. The
  schedule is a \<^verbatim>\<open>Map\<close> read with \<^verbatim>\<open>|| []\<close>. \<^verbatim>\<open>newSkillsLearned\<close>, \<^verbatim>\<open>dailyPayroll\<close> and
  \<^verbatim>\<open>achievedSkillHours\<close> are declared anew for every open day.
\<close>

definition scoreDay ::
  "organization \<Rightarrow> employee list \<Rightarrow> (int \<Rightarrow> shift list) \<Rightarrow> day \<Rightarrow> rat \<times> simState \<Rightarrow>
     jsError + rat \<times> simState" where
  "scoreDay org es schedule dy a =
     (if isClosed dy then Inr (fst a - rat_of_int (fixedCost org), snd a)
      else (case foldE (hourStep org es dy (schedule (dayId dy))) [dayStart dy..dayEnd dy - 1]
                   ((snd a)\<lparr>newSkillsLearned := Map.empty, dailyPayroll := 0,
                            achievedSkillHours := 0\<rparr>) of
              Inl e \<Rightarrow> Inl e
            | Inr st \<Rightarrow>
                (let capacityPercent =
                       (if totalSkillHours dy > 0
                        then achievedSkillHours st / rat_of_int (totalSkillHours dy) else 0)
                 in Inr (fst a + dayProfit org dy capacityPercent (dailyPayroll st), st))))"

definition calculateScore ::
  "organization \<Rightarrow> employee list \<Rightarrow> day list \<Rightarrow> (int \<Rightarrow> shift list) \<Rightarrow> jsError + rat \<times> simState" where
  "calculateScore org es ds schedule = foldE (scoreDay org es schedule) ds (0, initialSim es)"

section \<open>The payroll rule in the words of the specification\<close>

text \<open>
  The bill of one hour, given the weekly counter before the hour: the base salary while
  the counter is below the cap, the floored overtime rate from then on.
\<close>

definition specHourBill :: "organization \<Rightarrow> employee \<Rightarrow> int \<Rightarrow> int" where
  "specHourBill org e used =
     (if used < maxHoursPerWeek e then salaryPerHour e
      else \<lfloor>rat_of_int (salaryPerHour e) * rat_of_int (overtimeMod org) / 100\<rfloor>)"

text \<open>
  The product \<^verbatim>\<open>salaryPerHour * overtimeMod\<close> is computed exactly when it is below \<open>2^53\<close>
  in magnitude. \<open>hourBill\<close> is the bill of one hour of the employee with id \<open>i\<close>, given the
  weekly counters of \<^verbatim>\<open>bah3.js\<close> before the hour.
\<close>

definition exactRate :: "organization \<Rightarrow> employee \<Rightarrow> bool" where
  "exactRate org e = (\<bar>salaryPerHour e * overtimeMod org\<bar> < 9007199254740992)"

definition hourBill ::
  "organization \<Rightarrow> employee list \<Rightarrow> (int \<Rightarrow> int \<Rightarrow> int) \<Rightarrow> int \<Rightarrow> int \<Rightarrow> int" where
  "hourBill org es w d i =
     (case getEmployee es i of
        Some e \<Rightarrow> specHourBill org e (getHoursThisWeek (w i) d)
      | None \<Rightarrow> 0)"

section \<open>The coverage rule in the words of the specification\<close>

text \<open>
  The coverage of one skill in one hour, given the number of trained and of untrained
  workers present.
\<close>

definition specCoverage :: "nat \<Rightarrow> nat \<Rightarrow> rat" where
  "specCoverage t u = (if t \<ge> 1 then 1 else if u \<ge> 2 then 1 else if u = 1 then 1 / 2 else 0)"

text \<open>
  The shifts that count as present in \<^verbatim>\<open>calculateCapacity\<close> of \<^verbatim>\<open>rep_validator.js\<close> for
  skill \<open>k\<close> at hour \<open>h\<close> (a shift of an employee that does not exist is passed over),
  those of them worked by a trained and by an untrained employee, and the same for
  \<^verbatim>\<open>calculateScore\<close> of \<^verbatim>\<open>bah3.js\<close>. \<open>workers\<close> are the employees of a list of shifts.
\<close>

definition staffed :: "employee list \<Rightarrow> shift list \<Rightarrow> int \<Rightarrow> skill \<Rightarrow> shift list" where
  "staffed es shifts h k =
     filter (\<lambda>s. getEmployee es (employeeId s) \<noteq> None \<and> shiftSkill s = k
                 \<and> shiftStart s \<le> h \<and> h < shiftEnd s) shifts"

definition trainedOn :: "vstate \<Rightarrow> skill \<Rightarrow> shift list \<Rightarrow> shift list" where
  "trainedOn st k xs = filter (\<lambda>s. isTrained st (employeeId s) k) xs"

definition untrainedOn :: "vstate \<Rightarrow> skill \<Rightarrow> shift list \<Rightarrow> shift list" where
  "untrainedOn st k xs = filter (\<lambda>s. \<not> isTrained st (employeeId s) k) xs"

definition activeOn :: "shift list \<Rightarrow> int \<Rightarrow> skill \<Rightarrow> shift list" where
  "activeOn shifts h k = filter (\<lambda>s. shiftSkill s = k) (filter (activeAt h) shifts)"

definition knowing :: "simState \<Rightarrow> skill \<Rightarrow> shift list \<Rightarrow> shift list" where
  "knowing sim k xs = filter (\<lambda>s. k \<in> knownSkills sim (employeeId s)) xs"

definition notKnowing :: "simState \<Rightarrow> skill \<Rightarrow> shift list \<Rightarrow> shift list" where
  "notKnowing sim k xs = filter (\<lambda>s. k \<notin> knownSkills sim (employeeId s)) xs"

definition workers :: "shift list \<Rightarrow> int set" where
  "workers xs = employeeId ` set xs"

section \<open>The scenarios of the specification\<close>

text \<open>
  Scenario A: one open day, one employee trained in \<open>Register\<close> from the start, one
  shift over the whole day. The scenario leaves the learning and teaching rates open.
  Scenario B: the same day, two untrained employees with rates 1, both over the whole day.
\<close>

definition orgA :: organization where
  "orgA = \<lparr>overtimeMod = 50, fixedCost = 100\<rparr>"

definition dayA :: day where
  "dayA = \<lparr>dayId = 1, isClosed = False, dayStart = 8, dayEnd = 10, revenue = 1000,
            requiredSkills = [''Register'']\<rparr>"

definition empA :: "int \<Rightarrow> int \<Rightarrow> employee" where
  "empA lr tr = \<lparr>empId = 1, maxHoursPerWeek = 40, salaryPerHour = 10, learningRate = lr,
                 teachingRate = tr, initialSkills = {''Register''}, vacationDays = {}\<rparr>"

definition shiftA :: shift where
  "shiftA = \<lparr>employeeId = 1, shiftStart = 8, shiftEnd = 10, shiftSkill = ''Register''\<rparr>"

definition scheduleA :: "int \<Rightarrow> shift list" where
  "scheduleA i = (if i = 1 then [shiftA] else [])"

definition empB :: employee where
  "empB = \<lparr>empId = 2, maxHoursPerWeek = 40, salaryPerHour = 10, learningRate = 1,
            teachingRate = 1, initialSkills = {}, vacationDays = {}\<rparr>"

definition empC :: employee where
  "empC = \<lparr>empId = 3, maxHoursPerWeek = 40, salaryPerHour = 10, learningRate = 1,
            teachingRate = 1, initialSkills = {}, vacationDays = {}\<rparr>"

definition shiftsB :: "shift list" where
  "shiftsB = [\<lparr>employeeId = 2, shiftStart = 8, shiftEnd = 10, shiftSkill = ''Register''\<rparr>,
              \<lparr>employeeId = 3, shiftStart = 8, shiftEnd = 10, shiftSkill = ''Register''\<rparr>]"

text \<open>
  The first employee of scenario B booked twice over the whole day; and an organization
  and an employee whose product of salary and overtime modifier is above \<open>2^53\<close>.
\<close>

definition shiftsTwice :: "shift list" where
  "shiftsTwice = [\<lparr>employeeId = 2, shiftStart = 8, shiftEnd = 10, shiftSkill = ''Register''\<rparr>,
                  \<lparr>employeeId = 2, shiftStart = 8, shiftEnd = 10, shiftSkill = ''Register''\<rparr>]"

definition orgR :: organization where
  "orgR = \<lparr>overtimeMod = 100009, fixedCost = 100\<rparr>"

definition empR :: employee where
  "empR = \<lparr>empId = 7, maxHoursPerWeek = 40, salaryPerHour = 900719972988, learningRate = 1,
            teachingRate = 1, initialSkills = {}, vacationDays = {}\<rparr>"

section \<open>Weekly hours: the quantities of the statements\<close>

text \<open>
  The hours of the shifts of employee \<open>i\<close> that the validator bills on a day (shifts of
  employees that do not exist are passed over); the employees with a shift active at hour
  \<open>h\<close>; and the number of hours of a list at which employee \<open>j\<close> is active.
\<close>

definition hoursOn :: "employee list \<Rightarrow> shift list \<Rightarrow> int \<Rightarrow> int" where
  "hoursOn es shifts i =
     (\<Sum>s\<leftarrow>filter (\<lambda>s. getEmployee es (employeeId s) \<noteq> None \<and> employeeId s = i) shifts. duration s)"

definition activeWorkers :: "shift list \<Rightarrow> int \<Rightarrow> int set" where
  "activeWorkers shifts h = employeeId ` set (filter (activeAt h) shifts)"

definition hoursActive :: "shift list \<Rightarrow> int list \<Rightarrow> int \<Rightarrow> int" where
  "hoursActive shifts hs j = int (length (filter (\<lambda>h. j \<in> activeWorkers shifts h) hs))"

text \<open>
  An instance with eight days, of which only days 7 and 8 are open, and one employee with
  a weekly cap of one hour who works one hour on each of these two days.
\<close>

definition empW :: employee where
  "empW = \<lparr>empId = 1, maxHoursPerWeek = 1, salaryPerHour = 10, learningRate = 1,
            teachingRate = 1, initialSkills = {''Register''}, vacationDays = {}\<rparr>"

definition closedDay :: "int \<Rightarrow> day" where
  "closedDay i = \<lparr>dayId = i, isClosed = True, dayStart = 0, dayEnd = 0, revenue = 0,
                  requiredSkills = []\<rparr>"

definition openDayW :: "int \<Rightarrow> day" where
  "openDayW i = \<lparr>dayId = i, isClosed = False, dayStart = 8, dayEnd = 9, revenue = 1000,
                 requiredSkills = [''Register'']\<rparr>"

definition daysW :: "day list" where
  "daysW = [closedDay 1, closedDay 2, closedDay 3, closedDay 4, closedDay 5, closedDay 6,
            openDayW 7, openDayW 8]"

definition scheduleW :: "int \<Rightarrow> shift list" where
  "scheduleW i = (if i = 7 \<or> i = 8
                  then [\<lparr>employeeId = 1, shiftStart = 8, shiftEnd = 9, shiftSkill = ''Register''\<rparr>]
                  else [])"

section \<open>Training: the quantities of the statements\<close>

text \<open>
  The learning and teaching rate of the employee with a given id (0 when there is none),
  and the teaching rates of the workers of a list of shifts.
\<close>

definition learningRateOf :: "employee list \<Rightarrow> int \<Rightarrow> int" where
  "learningRateOf es i = (case getEmployee es i of Some e \<Rightarrow> learningRate e | None \<Rightarrow> 0)"

definition teachingRateOf :: "employee list \<Rightarrow> int \<Rightarrow> int" where
  "teachingRateOf es i = (case getEmployee es i of Some e \<Rightarrow> teachingRate e | None \<Rightarrow> 0)"

definition teacherRates :: "employee list \<Rightarrow> shift list \<Rightarrow> int list" where
  "teacherRates es xs = map (\<lambda>s. teachingRateOf es (employeeId s)) xs"

text \<open>
  The teacher bonus in the words of the specification: the maximum teaching rate of the
  trained workers present, 1 when there is none. And the bonus that both programs apply:
  that maximum when it is positive, 1 otherwise.
\<close>

definition specTeacherBonus :: "int list \<Rightarrow> int" where
  "specTeacherBonus rates = (if rates = [] then 1 else Max (set rates))"

definition teacherBonus :: "int list \<Rightarrow> int" where
  "teacherBonus rates = (if rates \<noteq> [] \<and> Max (set rates) > 0 then Max (set rates) else 1)"

text \<open>
  The value of an entry of \<^verbatim>\<open>teachersBySkill\<close> read with \<^verbatim>\<open>|| 0\<close>; the shifts of employee
  \<open>i\<close> that learn skill \<open>k\<close> at hour \<open>h\<close> in \<^verbatim>\<open>calculateScore\<close>; the rate that
  \<^verbatim>\<open>calculateCapacity\<close> records in \<^verbatim>\<open>hourlyTeachers\<close>; the points that \<^verbatim>\<open>updateTraining\<close>
  adds for an employee and a skill; and the bonus of the validator, which applies a
  teacher's rate only to a required skill and an hour of the opening window.
\<close>

definition tbVal :: "(skill \<rightharpoonup> int) \<Rightarrow> skill \<Rightarrow> int" where
  "tbVal tb k = (case tb k of Some r \<Rightarrow> r | None \<Rightarrow> 0)"

definition learnerShifts :: "simState \<Rightarrow> shift list \<Rightarrow> int \<Rightarrow> int \<Rightarrow> skill \<Rightarrow> shift list" where
  "learnerShifts st shifts h i k =
     filter (\<lambda>s. employeeId s = i) (notKnowing st k (activeOn shifts h k))"

definition recordedRate :: "employee list \<Rightarrow> vstate \<Rightarrow> shift list \<Rightarrow> int \<Rightarrow> skill \<Rightarrow> int" where
  "recordedRate es st shifts h k =
     fold max (teacherRates es (trainedOn st k (staffed es shifts h k))) 0"

definition dayGain :: "employee list \<Rightarrow> shift list \<Rightarrow> (int \<Rightarrow> skill \<Rightarrow> int) \<Rightarrow> int \<Rightarrow> skill \<Rightarrow> int" where
  "dayGain es shifts ht i k =
     (\<Sum>h\<leftarrow>empSkillHours shifts i k.
        learningRateOf es i * (if ht h k > 0 then ht h k else 1))"

definition validatorBonus ::
  "employee list \<Rightarrow> vstate \<Rightarrow> day \<Rightarrow> shift list \<Rightarrow> skill \<Rightarrow> int \<Rightarrow> int" where
  "validatorBonus es st dy shifts k h =
     teacherBonus (if k \<in> set (requiredSkills dy) \<and> dayStart dy \<le> h \<and> h < dayEnd dy
                   then teacherRates es (trainedOn st k (staffed es shifts h k)) else [])"

text \<open>
  A trained employee with teaching rate 0 and an untrained employee with learning rate 5,
  both on \<open>Register\<close> from 8 to 10.
\<close>

definition empT :: employee where
  "empT = \<lparr>empId = 4, maxHoursPerWeek = 40, salaryPerHour = 10, learningRate = 1,
            teachingRate = 0, initialSkills = {''Register''}, vacationDays = {}\<rparr>"

definition empU :: employee where
  "empU = \<lparr>empId = 5, maxHoursPerWeek = 40, salaryPerHour = 10, learningRate = 5,
            teachingRate = 1, initialSkills = {}, vacationDays = {}\<rparr>"

definition shiftsT :: "shift list" where
  "shiftsT = [\<lparr>employeeId = 4, shiftStart = 8, shiftEnd = 10, shiftSkill = ''Register''\<rparr>,
              \<lparr>employeeId = 5, shiftStart = 8, shiftEnd = 10, shiftSkill = ''Register''\<rparr>]"

text \<open>
  An untrained employee with learning rate 1000, alone on \<open>Register\<close> from 8 to 10.
\<close>

definition empV :: employee where
  "empV = \<lparr>empId = 6, maxHoursPerWeek = 40, salaryPerHour = 10, learningRate = 1000,
            teachingRate = 1, initialSkills = {}, vacationDays = {}\<rparr>"

definition shiftV :: shift where
  "shiftV = \<lparr>employeeId = 6, shiftStart = 8, shiftEnd = 10, shiftSkill = ''Register''\<rparr>"

section \<open>The validator of \<^verbatim>\<open>rep_validator.js\<close>: \<^verbatim>\<open>parseOutput\<close> and the whole run\<close>

text \<open>
  The splitting of the output text into lines and tokens is outside the model: an output
  line is the day id it starts with and its shift tokens, each already split into its
  four fields (a line \<^verbatim>\<open>day _\<close> has no token). The \<^verbatim>\<open>Shift\<close> constructor throws when
  \<^verbatim>\<open>duration <= 0\<close>; \<^verbatim>\<open>parseOutput\<close> catches that, logs the token and goes on with the next.
\<close>

record outputLine =
  lineDayId :: int
  lineTokens :: "shift list"

definition parseTokens :: "int \<Rightarrow> shift list \<Rightarrow> vstate \<Rightarrow> vstate" where
  "parseTokens i tokens st =
     fold (\<lambda>token st. if duration token \<le> 0 then logError (MalformedShiftToken i token) st else st)
       tokens st"

definition parseLine ::
  "day list \<Rightarrow> outputLine \<Rightarrow> vstate \<times> (int \<Rightarrow> shift list) \<Rightarrow> vstate \<times> (int \<Rightarrow> shift list)" where
  "parseLine ds ol a =
     (let i = lineDayId ol in
      if i < 0 then (logError (MalformedDayId i) (fst a), snd a)
      else (case lookupDay ds i of
              None \<Rightarrow> (logError (NonExistentDay i) (fst a), snd a)
            | Some dy \<Rightarrow>
                if lineTokens ol = [] then (fst a, (snd a)(i := []))
                else if isClosed dy
                then (logError (ClosedDayHasShifts i) (fst a), (snd a)(i := []))
                else (parseTokens i (lineTokens ol) (fst a),
                      (snd a)(i := filter (\<lambda>token. \<not> duration token \<le> 0) (lineTokens ol)))))"

definition parseOutput ::
  "day list \<Rightarrow> outputLine list \<Rightarrow> vstate \<Rightarrow> vstate \<times> (int \<Rightarrow> shift list)" where
  "parseOutput ds outputLines st =
     (if length outputLines \<noteq> length (dayIds ds)
      then (logError (OutputLineCount (length outputLines) (length (dayIds ds))) st, (\<lambda>_. []))
      else fold (parseLine ds) outputLines (st, (\<lambda>_. [])))"

text \<open>The main program: \<^verbatim>\<open>parseInput\<close>, \<^verbatim>\<open>parseOutput\<close>, \<^verbatim>\<open>validateAndScore\<close>.\<close>

definition validatorRun ::
  "organization \<Rightarrow> employee list \<Rightarrow> day list \<Rightarrow> outputLine list \<Rightarrow> jsError + vstate \<times> report" where
  "validatorRun org es ds outputLines =
     (let p = parseOutput ds outputLines (initialState es)
      in validateAndScore org es ds (snd p) (fst p))"

section \<open>The solver of \<^verbatim>\<open>bah3.js\<close>: \<^verbatim>\<open>generateSchedule\<close>, \<^verbatim>\<open>validateSchedule\<close>, \<^verbatim>\<open>run\<close>\<close>

text \<open>
  A \<^verbatim>\<open>Map\<close> is a list of key-value pairs in insertion order: \<^verbatim>\<open>set\<close> on a key that is
  present replaces the value where it stands. \<^verbatim>\<open>this.employees.values()\<close> are the
  employees in the order in which their ids were first set.
\<close>

fun mapSet :: "'k \<Rightarrow> 'v \<Rightarrow> ('k \<times> 'v) list \<Rightarrow> ('k \<times> 'v) list" where
  "mapSet k v [] = [(k, v)]"
| "mapSet k v (p # ps) = (if fst p = k then (k, v) # ps else p # mapSet k v ps)"

definition mapGet :: "(int \<times> shift list) list \<Rightarrow> int \<Rightarrow> shift list" where
  "mapGet m i = (case map_of m i of Some shifts \<Rightarrow> shifts | None \<Rightarrow> [])"

definition employeeValues :: "employee list \<Rightarrow> employee list" where
  "employeeValues es = List.map_filter (getEmployee es) (firstOccurrences (map empId es))"

definition fullShift :: "day \<Rightarrow> skill \<Rightarrow> employee \<Rightarrow> shift" where
  "fullShift dy k e =
     \<lparr>employeeId = empId e, shiftStart = dayStart dy, shiftEnd = dayEnd dy, shiftSkill = k\<rparr>"

text \<open>
  The body of the loop over the required skills: the three strategies in turn. The
  accumulator is \<^verbatim>\<open>dailyShifts\<close> and \<^verbatim>\<open>assignedEmployeeIds\<close>.
\<close>

definition skillStep ::
  "day \<Rightarrow> employee list \<Rightarrow> skill \<Rightarrow> shift list \<times> int set \<Rightarrow> shift list \<times> int set" where
  "skillStep dy availableEmployees k a =
     (case find (\<lambda>e. empId e \<notin> snd a \<and> k \<in> initialSkills e) availableEmployees of
        Some e \<Rightarrow> (fst a @ [fullShift dy k e], insert (empId e) (snd a))
      | None \<Rightarrow>
          (let unskilledNeeded = take 2 (filter (\<lambda>e. empId e \<notin> snd a) availableEmployees) in
           case unskilledNeeded of
             [emp1, emp2] \<Rightarrow>
               (fst a @ [fullShift dy k emp1, fullShift dy k emp2],
                insert (empId emp2) (insert (empId emp1) (snd a)))
           | _ \<Rightarrow>
               (case find (\<lambda>e. empId e \<notin> snd a) availableEmployees of
                  Some e \<Rightarrow> (fst a @ [fullShift dy k e], insert (empId e) (snd a))
                | None \<Rightarrow> a)))"

definition scheduleOneDay :: "employee list \<Rightarrow> day \<Rightarrow> shift list" where
  "scheduleOneDay es dy =
     (if isClosed dy then []
      else (let availableEmployees =
                  sort_key salaryPerHour
                    (filter (\<lambda>e. dayId dy \<notin> vacationDays e) (employeeValues es))
            in fst (fold (skillStep dy availableEmployees) (requiredSkills dy) ([], {}))))"

definition generateSchedule :: "employee list \<Rightarrow> day list \<Rightarrow> (int \<times> shift list) list" where
  "generateSchedule es ds = fold (\<lambda>dy. mapSet (dayId dy) (scheduleOneDay es dy)) ds []"

text \<open>
  The errors of \<^verbatim>\<open>validateSchedule\<close>, by their template and the values interpolated.
  \<^verbatim>\<open>isValid\<close> is set to false exactly where an error is pushed, so the result is that
  the list of errors is empty.
\<close>

datatype solverError =
    InvalidLineCount nat nat
  | MissingDayLine int
  | ClosedDayShifts int
  | UnknownEmployee int shift int
  | ScheduledOnVacation int int
  | OutsideOpeningWindow int shift int int
  | OnClosedDay int shift
  | StartNotBeforeEnd int shift
  | OverlappingPair int int shift shift

text \<open>
  The body of the loop over the shifts of a day; the accumulator is \<^verbatim>\<open>errors\<close> and
  \<^verbatim>\<open>employeeShifts\<close> (the shifts seen so far, per employee).
\<close>

definition checkShift ::
  "employee list \<Rightarrow> day \<Rightarrow> shift \<Rightarrow> solverError list \<times> (int \<Rightarrow> shift list) \<Rightarrow>
     solverError list \<times> (int \<Rightarrow> shift list)" where
  "checkShift es dy s a =
     (case getEmployee es (employeeId s) of
        None \<Rightarrow> (fst a @ [UnknownEmployee (dayId dy) s (employeeId s)], snd a)
      | Some e \<Rightarrow>
          (let e1 = (if dayId dy \<in> vacationDays e then [ScheduledOnVacation (dayId dy) (empId e)]
                     else []);
               e2 = (if \<not> isClosed dy \<and> (shiftStart s < dayStart dy \<or> shiftEnd s > dayEnd dy)
                     then [OutsideOpeningWindow (dayId dy) s (dayStart dy) (dayEnd dy)] else []);
               e3 = (if isClosed dy then [OnClosedDay (dayId dy) s] else []);
               e4 = (if shiftStart s \<ge> shiftEnd s then [StartNotBeforeEnd (dayId dy) s] else []);
               existingShifts = snd a (empId e);
               e5 = map (OverlappingPair (dayId dy) (empId e) s)
                      (filter (\<lambda>existing. max (shiftStart s) (shiftStart existing)
                                              < min (shiftEnd s) (shiftEnd existing))
                         existingShifts)
           in (fst a @ e1 @ e2 @ e3 @ e4 @ e5, (snd a)(empId e := existingShifts @ [s]))))"

definition checkDay ::
  "employee list \<Rightarrow> (int \<times> shift list) list \<Rightarrow> day \<Rightarrow> solverError list \<Rightarrow> solverError list" where
  "checkDay es schedule dy errors =
     (case map_of schedule (dayId dy) of
        None \<Rightarrow> errors @ [MissingDayLine (dayId dy)]
      | Some shifts \<Rightarrow>
          (let errors1 = (if isClosed dy \<and> length shifts > 0
                          then errors @ [ClosedDayShifts (dayId dy)] else errors)
           in fst (fold (checkShift es dy) shifts (errors1, (\<lambda>_. [])))))"

definition validationReport ::
  "employee list \<Rightarrow> day list \<Rightarrow> (int \<times> shift list) list \<Rightarrow> solverError list" where
  "validationReport es ds schedule =
     fold (checkDay es schedule) ds
       (if length schedule \<noteq> length ds then [InvalidLineCount (length ds) (length schedule)]
        else [])"

definition validateSchedule :: "employee list \<Rightarrow> day list \<Rightarrow> (int \<times> shift list) list \<Rightarrow> bool" where
  "validateSchedule es ds schedule = (validationReport es ds schedule = [])"

text \<open>
  The steps of \<^verbatim>\<open>run\<close> after the schedule is made: validation, then, only for a valid
  schedule, the score and the output. An uncaught error of \<^verbatim>\<open>calculateScore\<close> ends the
  run.
\<close>

datatype runResult =
    Aborted "solverError list"
  | Crashed jsError
  | Written "(int \<times> shift list) list" rat

definition validateAndScoreSchedule ::
  "organization \<Rightarrow> employee list \<Rightarrow> day list \<Rightarrow> (int \<times> shift list) list \<Rightarrow> runResult" where
  "validateAndScoreSchedule org es ds schedule =
     (if \<not> validateSchedule es ds schedule then Aborted (validationReport es ds schedule)
      else (case calculateScore org es ds (mapGet schedule) of
              Inl e \<Rightarrow> Crashed e
            | Inr r \<Rightarrow> Written schedule (fst r)))"

definition run :: "organization \<Rightarrow> employee list \<Rightarrow> day list \<Rightarrow> runResult" where
  "run org es ds = validateAndScoreSchedule org es ds (generateSchedule es ds)"

section \<open>Validation: the quantities of the statements\<close>

text \<open>
  The interval overlap test of two shifts; the errors logged so far, as a set; the state
  in which validity and the error list agree; the state in which the shifts of day \<open>i\<close>
  are checked (after the weekly reset); an invariant of the loop over the shifts (the
  interval of a shift is kept for the overlap test, or its employee already has an
  overlap error); schedules all of whose shifts are of existing employees; and the faults
  that \<^verbatim>\<open>parseOutput\<close> logs for one output line.
\<close>

definition overlaps :: "shift \<Rightarrow> shift \<Rightarrow> bool" where
  "overlaps s t = (max (shiftStart s) (shiftStart t) < min (shiftEnd s) (shiftEnd t))"

definition errorsOf :: "vstate \<Rightarrow> violation set" where
  "errorsOf st = set (validationErrors st)"

definition consistent :: "vstate \<Rightarrow> bool" where
  "consistent st = (isValid st \<longleftrightarrow> validationErrors st = [])"

definition dayEntry :: "int \<Rightarrow> vstate \<Rightarrow> vstate" where
  "dayEntry i st = (if i mod 7 = 0 then st\<lparr>weeklyHours := (\<lambda>_. 0)\<rparr> else st)"

definition seen :: "employee list \<Rightarrow> day \<Rightarrow> capAcc \<Rightarrow> shift \<Rightarrow> bool" where
  "seen es dy acc t =
     ((shiftStart t, shiftEnd t) \<in> set (employeeShiftsToday acc (employeeId t))
      \<or> OverlappingShifts (dayId dy) (employeeId t) \<in> errorsOf (accState acc))"

definition allKnown :: "employee list \<Rightarrow> shift list \<Rightarrow> bool" where
  "allKnown es shifts = list_all (\<lambda>s. getEmployee es (employeeId s) \<noteq> None) shifts"

definition scheduleKnown :: "employee list \<Rightarrow> day list \<Rightarrow> (int \<Rightarrow> shift list) \<Rightarrow> bool" where
  "scheduleKnown es ds schedule = list_all (\<lambda>i. allKnown es (schedule i)) (dayIds ds)"

definition plainSkills :: "shift list \<Rightarrow> bool" where
  "plainSkills shifts = list_all (\<lambda>s. \<not> inheritedName (shiftSkill s)) shifts"

definition schedulePlain :: "day list \<Rightarrow> (int \<Rightarrow> shift list) \<Rightarrow> bool" where
  "schedulePlain ds schedule = list_all (\<lambda>i. plainSkills (schedule i)) (dayIds ds)"

definition lineFaults :: "day list \<Rightarrow> outputLine \<Rightarrow> violation set" where
  "lineFaults ds ol =
     (if lineDayId ol < 0 then {MalformedDayId (lineDayId ol)}
      else case lookupDay ds (lineDayId ol) of
             None \<Rightarrow> {NonExistentDay (lineDayId ol)}
           | Some dy \<Rightarrow>
               if lineTokens ol = [] then {}
               else if isClosed dy then {ClosedDayHasShifts (lineDayId ol)}
               else MalformedShiftToken (lineDayId ol)
                      ` {token \<in> set (lineTokens ol). duration token \<le> 0})"

text \<open>
  An employee on vacation on day 2; day 2 like day 1 of scenario A; a shift from 9 to 11;
  and two outputs for two days.
\<close>

definition empX :: employee where
  "empX = \<lparr>empId = 1, maxHoursPerWeek = 40, salaryPerHour = 10, learningRate = 1,
            teachingRate = 1, initialSkills = {''Register''}, vacationDays = {2}\<rparr>"

definition dayA2 :: day where
  "dayA2 = dayA\<lparr>dayId := 2\<rparr>"

definition lateShift :: shift where
  "lateShift = \<lparr>employeeId = 1, shiftStart = 9, shiftEnd = 11, shiftSkill = ''Register''\<rparr>"

definition linesX :: "outputLine list" where
  "linesX = [\<lparr>lineDayId = 1, lineTokens = [shiftA, lateShift]\<rparr>,
             \<lparr>lineDayId = 2, lineTokens = [shiftA]\<rparr>]"

definition linesY :: "outputLine list" where
  "linesY = [\<lparr>lineDayId = 1, lineTokens = [shiftA]\<rparr>,
             \<lparr>lineDayId = 2, lineTokens = [shiftA]\<rparr>]"

section \<open>Unknown references: the quantities of the statements\<close>

text \<open>
  No employee that is absent from the input is trained on anything: the invariant under which
  a shift of such an employee makes \<^verbatim>\<open>updateTraining\<close> read a property of \<^verbatim>\<open>undefined\<close>.
\<close>

definition unknownUntrained :: "employee list \<Rightarrow> vstate \<Rightarrow> bool" where
  "unknownUntrained es st =
     (\<forall>i k. getEmployee es i = None \<longrightarrow> skillPoints st i k < 1000)"

definition shift99 :: shift where
  "shift99 = \<lparr>employeeId = 99, shiftStart = 8, shiftEnd = 10, shiftSkill = ''Register''\<rparr>"

definition bogusShift :: shift where
  "bogusShift = \<lparr>employeeId = 2, shiftStart = 8, shiftEnd = 10, shiftSkill = ''Bogus''\<rparr>"

section \<open>Merging of one-hour shifts: \<^verbatim>\<open>mergeShifts\<close> of \<^verbatim>\<open>bah.js\<close>\<close>

text \<open>
  The shifts are sorted by employee, then skill, then start, and joined in one pass.
  \<^verbatim>\<open>localeCompare\<close> depends on the locale of the host and is a parameter. The sort is a
  stable insertion sort by the comparator; the result of the proofs below only needs that
  the sorted array is a permutation of the shifts. The day id of a shift is not touched by
  the merge and is left out.
\<close>

definition compareShifts :: "(skill \<Rightarrow> skill \<Rightarrow> int) \<Rightarrow> shift \<Rightarrow> shift \<Rightarrow> int" where
  "compareShifts localeCompare a b =
     (if employeeId a \<noteq> employeeId b then employeeId a - employeeId b
      else if shiftSkill a \<noteq> shiftSkill b then localeCompare (shiftSkill a) (shiftSkill b)
      else shiftStart a - shiftStart b)"

fun insertBy :: "('a \<Rightarrow> 'a \<Rightarrow> int) \<Rightarrow> 'a \<Rightarrow> 'a list \<Rightarrow> 'a list" where
  "insertBy cmp x [] = [x]"
| "insertBy cmp x (y # ys) = (if cmp x y \<le> 0 then x # y # ys else y # insertBy cmp x ys)"

definition sortBy :: "('a \<Rightarrow> 'a \<Rightarrow> int) \<Rightarrow> 'a list \<Rightarrow> 'a list" where
  "sortBy cmp xs = foldr (insertBy cmp) xs []"

fun mergeLoop :: "shift \<Rightarrow> shift list \<Rightarrow> shift list \<Rightarrow> shift list" where
  "mergeLoop currentShift [] merged = merged @ [currentShift]"
| "mergeLoop currentShift (nextShift # rest) merged =
     (if employeeId currentShift = employeeId nextShift
         \<and> shiftSkill currentShift = shiftSkill nextShift
         \<and> shiftEnd currentShift = shiftStart nextShift
      then mergeLoop (currentShift\<lparr>shiftEnd := shiftEnd nextShift\<rparr>) rest merged
      else mergeLoop nextShift rest (merged @ [currentShift]))"

definition mergeShifts_bah :: "(skill \<Rightarrow> skill \<Rightarrow> int) \<Rightarrow> shift list \<Rightarrow> shift list" where
  "mergeShifts_bah localeCompare shifts =
     (if shifts = [] then []
      else let sorted = sortBy (compareShifts localeCompare) shifts
           in mergeLoop (hd sorted) (tl sorted) [])"

text \<open>
  The hour slots \<open>(employee, hour, skill)\<close> covered by a shift \<open>[start, end)\<close>, and by a list of
  shifts, counted with multiplicity.
\<close>

definition slots :: "'e \<Rightarrow> int \<Rightarrow> int \<Rightarrow> 'k \<Rightarrow> ('e \<times> int \<times> 'k) multiset" where
  "slots e a b k = mset (map (\<lambda>h. (e, h, k)) [a..b - 1])"

definition covered :: "shift list \<Rightarrow> (int \<times> int \<times> skill) multiset" where
  "covered shifts =
     (\<Sum>s\<leftarrow>shifts. slots (employeeId s) (shiftStart s) (shiftEnd s) (shiftSkill s))"

section \<open>Merging of one-hour shifts: \<^verbatim>\<open>mergeShifts\<close> of \<^verbatim>\<open>bah3.js\<close>\<close>

text \<open>
  The shifts are grouped in a \<^verbatim>\<open>Map\<close> under the key \<^verbatim>\<open>`${s.employeeId}-${s.skill}`\<close>; the employee
  and the skill of a merged shift are read back from the key with \<^verbatim>\<open>key.split('-')\<close>.
  \<open>showInt\<close> is the decimal numeral that a template literal prints for an integer;
  \<open>jsNumber\<close> is \<^verbatim>\<open>Number\<close> on the strings that occur as the first part of a key: the empty
  string (0) and decimal numerals, \<open>None\<close> standing for \<^verbatim>\<open>NaN\<close>, also of \<^verbatim>\<open>undefined\<close>.
\<close>

definition digitChar :: "nat \<Rightarrow> char" where
  "digitChar d = ''0123456789'' ! d"

fun digits :: "nat \<Rightarrow> string" where
  "digits n = (if n < 10 then [digitChar n] else digits (n div 10) @ [digitChar (n mod 10)])"

declare digits.simps [simp del]

definition showInt :: "int \<Rightarrow> string" where
  "showInt i = (if i < 0 then CHR ''-'' # digits (nat (- i)) else digits (nat i))"

definition digitVal :: "char \<Rightarrow> nat option" where
  "digitVal c = map_of (zip ''0123456789'' [0, 1, 2, 3, 4, 5, 6, 7, 8, 9]) c"

fun decimal :: "string \<Rightarrow> nat \<Rightarrow> nat option" where
  "decimal [] acc = Some acc"
| "decimal (c # cs) acc =
     (case digitVal c of None \<Rightarrow> None | Some d \<Rightarrow> decimal cs (10 * acc + d))"

definition jsNumber :: "string option \<Rightarrow> int option" where
  "jsNumber x = (case x of None \<Rightarrow> None | Some s \<Rightarrow> map_option int (decimal s 0))"

text \<open>\<^verbatim>\<open>String.prototype.split\<close> with a one-character separator.\<close>

fun splitAcc :: "char \<Rightarrow> string \<Rightarrow> string \<Rightarrow> string list" where
  "splitAcc c acc [] = [rev acc]"
| "splitAcc c acc (x # xs) =
     (if x = c then rev acc # splitAcc c [] xs else splitAcc c (x # acc) xs)"

definition jsSplit :: "char \<Rightarrow> string \<Rightarrow> string list" where
  "jsSplit c s = splitAcc c [] s"

text \<open>
  The destructuring \<^verbatim>\<open>const [employeeId, skill] = key.split('-')\<close>: the first two parts, a
  missing part being \<^verbatim>\<open>undefined\<close> (\<open>None\<close>).
\<close>

definition destructure :: "string list \<Rightarrow> string option \<times> string option" where
  "destructure parts =
     (case parts of [] \<Rightarrow> (None, None)
      | [a] \<Rightarrow> (Some a, None)
      | a # b # rest \<Rightarrow> (Some a, Some b))"

definition shiftKey :: "shift \<Rightarrow> string" where
  "shiftKey s = showInt (employeeId s) @ ''-'' @ shiftSkill s"

text \<open>
  \<^verbatim>\<open>if (!map.has(key)) map.set(key, []); map.get(key).push(v)\<close>, the \<^verbatim>\<open>Map\<close> as the list of its
  entries in insertion order.
\<close>

fun groupPush :: "'k \<Rightarrow> 'v \<Rightarrow> ('k \<times> 'v list) list \<Rightarrow> ('k \<times> 'v list) list" where
  "groupPush k v [] = [(k, [v])]"
| "groupPush k v (p # ps) =
     (if fst p = k then (k, snd p @ [v]) # ps else p # groupPush k v ps)"

text \<open>A merged shift: its employee is the result of \<^verbatim>\<open>Number\<close>, its skill a part of the key.\<close>

record mergedShift =
  msEmployeeId :: "int option"
  msStart :: int
  msEnd :: int
  msSkill :: "skill option"

text \<open>
  The loop over the sorted starts of one group. Only the start of a shift is used: every
  shift is taken to last one hour.
\<close>

fun startsLoop ::
  "int option \<Rightarrow> skill option \<Rightarrow> int \<Rightarrow> int \<Rightarrow> int list \<Rightarrow> mergedShift list
     \<Rightarrow> mergedShift list" where
  "startsLoop e k currentStart currentEnd [] merged =
     merged @ [\<lparr>msEmployeeId = e, msStart = currentStart, msEnd = currentEnd, msSkill = k\<rparr>]"
| "startsLoop e k currentStart currentEnd (x # xs) merged =
     (if x = currentEnd then startsLoop e k currentStart (x + 1) xs merged
      else startsLoop e k x (x + 1) xs
             (merged @ [\<lparr>msEmployeeId = e, msStart = currentStart, msEnd = currentEnd,
                         msSkill = k\<rparr>]))"

definition groupBody :: "string \<times> int list \<Rightarrow> mergedShift list \<Rightarrow> mergedShift list" where
  "groupBody g merged =
     (let parts = destructure (jsSplit CHR ''-'' (fst g));
          starts = sort (snd g)
      in startsLoop (jsNumber (fst parts)) (snd parts) (hd starts) (hd starts + 1) (tl starts)
           merged)"

definition mergeShifts_bah3 :: "shift list \<Rightarrow> mergedShift list" where
  "mergeShifts_bah3 shifts =
     fold groupBody (fold (\<lambda>s. groupPush (shiftKey s) (shiftStart s)) shifts []) []"

definition covered3 :: "mergedShift list \<Rightarrow> (int option \<times> int \<times> skill option) multiset" where
  "covered3 ms = (\<Sum>m\<leftarrow>ms. slots (msEmployeeId m) (msStart m) (msEnd m) (msSkill m))"

section \<open>Merging of one-hour shifts: the output loop of \<^verbatim>\<open>bah2.js\<close>\<close>

text \<open>
  The same grouping by key, with the \<open>(start, end)\<close> pairs as values; the employee and the
  skill of a token are the parts of the key as strings (\<^verbatim>\<open>undefined\<close> prints as such).
  A block is the tuple of values that the template
  \<^verbatim>\<open>`${employeeId}-${m.start}-${m.end}-${skill}`\<close> joins to a token.
\<close>

definition jsString :: "string option \<Rightarrow> string" where
  "jsString x = (case x of None \<Rightarrow> ''undefined'' | Some s \<Rightarrow> s)"

definition compareStart :: "int \<times> int \<Rightarrow> int \<times> int \<Rightarrow> int" where
  "compareStart a b = fst a - fst b"

fun blockLoop :: "int \<times> int \<Rightarrow> (int \<times> int) list \<Rightarrow> (int \<times> int) list \<Rightarrow> (int \<times> int) list" where
  "blockLoop current [] merged = merged @ [current]"
| "blockLoop current (x # xs) merged =
     (if fst x = snd current then blockLoop (fst current, snd x) xs merged
      else blockLoop x xs (merged @ [current]))"

type_synonym block = "string \<times> int \<times> int \<times> string"

definition formatToken :: "block \<Rightarrow> string" where
  "formatToken b =
     (case b of (emp, mStart, mEnd, sk) \<Rightarrow>
        emp @ ''-'' @ showInt mStart @ ''-'' @ showInt mEnd @ ''-'' @ sk)"

definition groupBlocks :: "string \<times> (int \<times> int) list \<Rightarrow> block list" where
  "groupBlocks g =
     (let parts = destructure (jsSplit CHR ''-'' (fst g));
          shifts = sortBy compareStart (snd g);
          merged = blockLoop (hd shifts) (tl shifts) []
      in map (\<lambda>m. (jsString (fst parts), fst m, snd m, jsString (snd parts))) merged)"

definition tokenBlocks :: "shift list \<Rightarrow> block list" where
  "tokenBlocks shiftsForDay =
     concat (map groupBlocks
       (fold (\<lambda>s. groupPush (shiftKey s) (shiftStart s, shiftEnd s)) shiftsForDay []))"

definition finalTokens :: "shift list \<Rightarrow> string list" where
  "finalTokens shiftsForDay = map formatToken (tokenBlocks shiftsForDay)"

definition coveredBlocks :: "block list \<Rightarrow> (string \<times> int \<times> string) multiset" where
  "coveredBlocks bs = (\<Sum>b\<leftarrow>bs. case b of (e, a, b, k) \<Rightarrow> slots e a b k)"

section \<open>Merging: the quantities of the statements\<close>

text \<open>The entries of all groups, and what the parts of a key are read back as.\<close>

definition flat :: "('k \<times> 'v list) list \<Rightarrow> ('k \<times> 'v) multiset" where
  "flat groups = (\<Sum>g\<leftarrow>groups. image_mset (Pair (fst g)) (mset (snd g)))"

definition keyEmployee :: "string \<Rightarrow> int option" where
  "keyEmployee key = jsNumber (fst (destructure (jsSplit CHR ''-'' key)))"

definition keySkill :: "string \<Rightarrow> skill option" where
  "keySkill key = snd (destructure (jsSplit CHR ''-'' key))"

definition coveredPairs :: "'e \<Rightarrow> 'k \<Rightarrow> (int \<times> int) list \<Rightarrow> ('e \<times> int \<times> 'k) multiset" where
  "coveredPairs e k ps = (\<Sum>p\<leftarrow>ps. slots e (fst p) (snd p) k)"

definition keyEmployeeString :: "string \<Rightarrow> string" where
  "keyEmployeeString key = jsString (fst (destructure (jsSplit CHR ''-'' key)))"

definition keySkillString :: "string \<Rightarrow> string" where
  "keySkillString key = jsString (snd (destructure (jsSplit CHR ''-'' key)))"

text \<open>One-hour shifts, a comparator of skills, and a day of three one-hour shifts.\<close>

definition hourShift :: "int \<Rightarrow> int \<Rightarrow> skill \<Rightarrow> shift" where
  "hourShift e h k = \<lparr>employeeId = e, shiftStart = h, shiftEnd = h + 1, shiftSkill = k\<rparr>"

definition byLength :: "skill \<Rightarrow> skill \<Rightarrow> int" where
  "byLength a b = int (length a) - int (length b)"

definition shiftsM :: "shift list" where
  "shiftsM = [hourShift 2 8 ''Bakery'', hourShift 1 9 ''Register'', hourShift 1 8 ''Register'']"

section \<open>The scheduler of \<^verbatim>\<open>sonnet.js\<close>: \<^verbatim>\<open>advancedSchedule\<close>\<close>

text \<open>
  For every required skill of an open day the scheduler scores every employee who is not
  on vacation and gives the best one a shift over the whole opening window. Its state is
  \<^verbatim>\<open>weeklyHours\<close> (keyed by week start and employee id, a missing key read as 0) and
  \<^verbatim>\<open>employeeSkills\<close> (the trained skills and the training progress per employee id; ids other
  than those of the employees are never looked up). \<^verbatim>\<open>skillAssignments\<close> is written and never
  read, and is left out. \<^verbatim>\<open>employees.find\<close> is the first employee with the id; reading a
  field of its result when there is none is a \<^verbatim>\<open>TypeError\<close>.
\<close>

record candidate =
  candEmp :: employee
  candScore :: int
  candCost :: int
  candTrained :: bool
  candOvertime :: int

record planState =
  planWeeklyHours :: "int \<times> int \<Rightarrow> int"
  planTrained :: "int \<Rightarrow> skill set"
  planProgress :: "int \<Rightarrow> skill \<Rightarrow> int"

definition initialPlan :: "employee list \<Rightarrow> planState" where
  "initialPlan es =
     \<lparr>planWeeklyHours = (\<lambda>_. 0),
      planTrained = (\<lambda>i. case getEmployee es i of None \<Rightarrow> {} | Some e \<Rightarrow> initialSkills e),
      planProgress = (\<lambda>_ _. 0)\<rparr>"

definition weekStart :: "day \<Rightarrow> int" where
  "weekStart dy = (dayId dy div 7) * 7"

text \<open>The candidate that the loop over the employees pushes for one employee.\<close>

definition candidateOf :: "organization \<Rightarrow> planState \<Rightarrow> day \<Rightarrow> skill \<Rightarrow> employee \<Rightarrow> candidate" where
  "candidateOf org st dy k emp =
     (let shiftHours = dayEnd dy - dayStart dy;
          hoursThisWeek = planWeeklyHours st (weekStart dy, empId emp);
          overtimeHours = max 0 (hoursThisWeek + shiftHours - maxHoursPerWeek emp);
          baseHours = shiftHours - overtimeHours;
          cost = baseHours * salaryPerHour emp + overtimeHours * overtimeRate org emp;
          isTrained = (k \<in> planTrained st (empId emp));
          score = (if isTrained then 1000000 else 100) - cost - overtimeHours * 5000
      in \<lparr>candEmp = emp, candScore = score, candCost = cost, candTrained = isTrained,
          candOvertime = overtimeHours\<rparr>)"

text \<open>
  The body of the loop over \<^verbatim>\<open>day.skills\<close>: the candidates are sorted by descending score
  (the sort is stable) and the first one gets the shift. The accumulator is \<^verbatim>\<open>shifts\<close> and
  the state.
\<close>

definition assignSkill ::
  "organization \<Rightarrow> employee list \<Rightarrow> day \<Rightarrow> skill \<Rightarrow> shift list \<times> planState
     \<Rightarrow> shift list \<times> planState" where
  "assignSkill org es dy k a =
     (let candidates = map (candidateOf org (snd a) dy k)
                         (filter (\<lambda>emp. dayId dy \<notin> vacationDays emp) es);
          sorted = sortBy (\<lambda>a b. candScore b - candScore a) candidates
      in case sorted of
           [] \<Rightarrow> a
         | best # rest \<Rightarrow>
             (fst a @ [fullShift dy k (candEmp best)],
              (snd a)\<lparr>planWeeklyHours := (planWeeklyHours (snd a))
                 ((weekStart dy, empId (candEmp best)) :=
                    planWeeklyHours (snd a) (weekStart dy, empId (candEmp best))
                    + (dayEnd dy - dayStart dy))\<rparr>))"

text \<open>
  The training gains of the shifts of the day, shift by shift. \<^verbatim>\<open>progress\<close> is a plain
  object read with \<^verbatim>\<open>|| 0\<close>: for a skill with the name of a property of
  \<^verbatim>\<open>Object.prototype\<close> the sum of the inherited value and the gain is a string, which fails
  the test \<^verbatim>\<open>>= 1000\<close>, and the model leaves the state unchanged.
\<close>

definition teacherStep :: "employee list \<Rightarrow> planState \<Rightarrow> shift \<Rightarrow> shift \<Rightarrow> int \<Rightarrow> jsError + int" where
  "teacherStep es st s otherShift rate =
     (if shiftSkill otherShift = shiftSkill s \<and> employeeId otherShift \<noteq> employeeId s
         \<and> shiftSkill s \<in> planTrained st (employeeId otherShift)
      then (case find (\<lambda>e. empId e = employeeId otherShift) es of
              None \<Rightarrow> Inl TypeError
            | Some teacher \<Rightarrow> Inr (max rate (teachingRate teacher)))
      else Inr rate)"

definition trainShift ::
  "employee list \<Rightarrow> day \<Rightarrow> shift list \<Rightarrow> shift \<Rightarrow> planState \<Rightarrow> jsError + planState" where
  "trainShift es dy shifts s st =
     (if shiftSkill s \<in> planTrained st (employeeId s) then Inr st
      else (case foldE (teacherStep es st s) shifts 1 of
              Inl e \<Rightarrow> Inl e
            | Inr rate \<Rightarrow>
                (case find (\<lambda>e. empId e = employeeId s) es of
                   None \<Rightarrow> Inl TypeError
                 | Some emp \<Rightarrow>
                     if inheritedName (shiftSkill s) then Inr st else
                     (let gain = (dayEnd dy - dayStart dy) * learningRate emp * rate;
                          total = planProgress st (employeeId s) (shiftSkill s) + gain;
                          st1 = st\<lparr>planProgress := (planProgress st)
                                  (employeeId s := (planProgress st (employeeId s))
                                     (shiftSkill s := total))\<rparr>
                      in Inr (if total \<ge> 1000
                              then st1\<lparr>planTrained := (planTrained st1)
                                     (employeeId s :=
                                        insert (shiftSkill s) (planTrained st1 (employeeId s)))\<rparr>
                              else st1)))))"

definition planDay ::
  "organization \<Rightarrow> employee list \<Rightarrow> day \<Rightarrow> (int \<times> shift list) list \<times> planState
     \<Rightarrow> jsError + (int \<times> shift list) list \<times> planState" where
  "planDay org es dy a =
     (if isClosed dy then Inr (fst a @ [(dayId dy, [])], snd a)
      else (let r = fold (assignSkill org es dy) (requiredSkills dy) ([], snd a) in
            case foldE (trainShift es dy (fst r)) (fst r) (snd r) of
              Inl e \<Rightarrow> Inl e
            | Inr st \<Rightarrow> Inr (fst a @ [(dayId dy, fst r)], st)))"

definition advancedSchedule ::
  "organization \<Rightarrow> employee list \<Rightarrow> day list \<Rightarrow> jsError + (int \<times> shift list) list" where
  "advancedSchedule org es ds =
     (case foldE (planDay org es) ds ([], initialPlan es) of
        Inl e \<Rightarrow> Inl e
      | Inr a \<Rightarrow> Inr (fst a))"

section \<open>The scheduler of \<^verbatim>\<open>src/unnamed/part_000\<close>: \<^verbatim>\<open>Scheduler.scheduleDay\<close>\<close>

text \<open>
  \<^verbatim>\<open>scheduleDay(dayIdx, day)\<close> reads, of the state of every employee, \<^verbatim>\<open>state.skills\<close> and
  \<^verbatim>\<open>state.hoursThisWeek[dayIdx]\<close>: the states are given as the list of these pairs, in the
  order of the employees. A shift is modelled without its \<^verbatim>\<open>empIdx\<close>, which the output does
  not print. The candidates of a skill are copies (\<^verbatim>\<open>{...c, hasSkill, effectiveHours}\<close>) of the
  candidates of the day, so the hours that the loop adds to a candidate are not seen by the
  next skill; within the loop every candidate is visited once, so they are not seen there
  either.
\<close>

record dayCandidate =
  dcEmp :: employee
  dcIdx :: nat
  dcSkills :: "skill set"
  dcWeekHours :: int
  dcHourlyCost :: int

record skillCandidate =
  scCandidate :: dayCandidate
  scHasSkill :: bool
  scEffectiveHours :: int

definition dayCandidates ::
  "organization \<Rightarrow> employee list \<Rightarrow> (skill set \<times> int) list \<Rightarrow> nat \<Rightarrow> dayCandidate list" where
  "dayCandidates org es states dayIdx =
     List.map_filter
       (\<lambda>(emp, idx, state).
          if int dayIdx \<in> vacationDays emp then None
          else Some \<lparr>dcEmp = emp, dcIdx = idx, dcSkills = fst state, dcWeekHours = snd state,
                     dcHourlyCost = (if snd state \<ge> maxHoursPerWeek emp
                                     then overtimeRate org emp else salaryPerHour emp)\<rparr>)
       (zip es (zip [0..<length es] states))"

definition compareCandidates :: "skillCandidate \<Rightarrow> skillCandidate \<Rightarrow> int" where
  "compareCandidates a b =
     (if scHasSkill a \<noteq> scHasSkill b then of_bool (scHasSkill b) - of_bool (scHasSkill a)
      else dcHourlyCost (scCandidate a) - dcHourlyCost (scCandidate b))"

text \<open>The loop over the sorted candidates of a skill, until \<^verbatim>\<open>needsCoverage <= 0\<close>.\<close>

fun assignLoop :: "day \<Rightarrow> skill \<Rightarrow> skillCandidate list \<Rightarrow> rat \<Rightarrow> shift list \<Rightarrow> shift list" where
  "assignLoop dy k [] needsCoverage shifts = shifts"
| "assignLoop dy k (c # cs) needsCoverage shifts =
     (if needsCoverage \<le> 0 then shifts
      else (let assignHours = min (dayEnd dy - dayStart dy) (scEffectiveHours c) in
            if assignHours > 0
            then assignLoop dy k cs (needsCoverage - (if scHasSkill c then 1 else 1 / 2))
                   (shifts @ [\<lparr>employeeId = empId (dcEmp (scCandidate c)),
                                shiftStart = dayStart dy, shiftEnd = dayStart dy + assignHours,
                                shiftSkill = k\<rparr>])
            else assignLoop dy k cs needsCoverage shifts))"

definition coverSkill :: "day \<Rightarrow> dayCandidate list \<Rightarrow> skill \<Rightarrow> shift list \<Rightarrow> shift list" where
  "coverSkill dy candidates k shifts =
     (let hoursNeeded = dayEnd dy - dayStart dy;
          skillCount = length (filter (\<lambda>s. s = k) (requiredSkills dy));
          sorted = sortBy compareCandidates
                     (filter (\<lambda>c. scEffectiveHours c > 0)
                        (map (\<lambda>c. \<lparr>scCandidate = c, scHasSkill = (k \<in> dcSkills c),
                                    scEffectiveHours = min hoursNeeded (40 - dcWeekHours c)\<rparr>)
                           candidates))
      in assignLoop dy k sorted (of_nat skillCount) shifts)"

definition scheduleDay ::
  "organization \<Rightarrow> employee list \<Rightarrow> (skill set \<times> int) list \<Rightarrow> nat \<Rightarrow> day \<Rightarrow> shift list" where
  "scheduleDay org es states dayIdx dy =
     fold (coverSkill dy (dayCandidates org es states dayIdx))
       (firstOccurrences (requiredSkills dy)) []"

text \<open>The states that \<^verbatim>\<open>parseInput\<close> sets up: the skills of the input and no hours.\<close>

definition initialStates :: "employee list \<Rightarrow> (skill set \<times> int) list" where
  "initialStates es = map (\<lambda>emp. (initialSkills emp, 0)) es"

section \<open>Schedulers: the quantities of the statements\<close>

text \<open>An employee trained on two skills, and a day that requires both.\<close>

definition empD :: employee where
  "empD = \<lparr>empId = 1, maxHoursPerWeek = 40, salaryPerHour = 10, learningRate = 1,
            teachingRate = 1, initialSkills = {''Register'', ''Bakery''}, vacationDays = {}\<rparr>"

definition dayD :: day where
  "dayD = \<lparr>dayId = 1, isClosed = False, dayStart = 8, dayEnd = 10, revenue = 1000,
            requiredSkills = [''Register'', ''Bakery'']\<rparr>"

definition shiftD :: shift where
  "shiftD = \<lparr>employeeId = 1, shiftStart = 8, shiftEnd = 10, shiftSkill = ''Bakery''\<rparr>"

text \<open>
  The shifts of a day that \<^verbatim>\<open>validateSchedule\<close> of \<^verbatim>\<open>bah3.js\<close> accepts: one shift per employee,
  over the whole window, of an existing employee who is not on vacation. \<open>availableOn\<close> is
  \<^verbatim>\<open>availableEmployees\<close> of \<^verbatim>\<open>generateSchedule\<close>, \<open>assignedOk\<close> the invariant of its loop over the
  required skills.
\<close>

definition cleanShifts :: "employee list \<Rightarrow> day \<Rightarrow> shift list \<Rightarrow> bool" where
  "cleanShifts es dy shifts =
     (distinct (map employeeId shifts)
      \<and> (\<forall>s \<in> set shifts. shiftStart s = dayStart dy \<and> shiftEnd s = dayEnd dy
            \<and> (\<exists>e. getEmployee es (employeeId s) = Some e \<and> dayId dy \<notin> vacationDays e)))"

definition availableOn :: "employee list \<Rightarrow> day \<Rightarrow> employee list" where
  "availableOn es dy =
     sort_key salaryPerHour (filter (\<lambda>e. dayId dy \<notin> vacationDays e) (employeeValues es))"

definition assignedOk :: "employee list \<Rightarrow> day \<Rightarrow> shift list \<times> int set \<Rightarrow> bool" where
  "assignedOk avail dy a =
     (distinct (map employeeId (fst a)) \<and> employeeId ` set (fst a) \<subseteq> snd a
      \<and> (\<forall>s \<in> set (fst a). shiftStart s = dayStart dy \<and> shiftEnd s = dayEnd dy
            \<and> employeeId s \<in> empId ` set avail))"

text \<open>An employee on vacation on day 1, and the shift of the second employee.\<close>

definition empOff :: employee where
  "empOff = \<lparr>empId = 1, maxHoursPerWeek = 40, salaryPerHour = 10, learningRate = 1,
              teachingRate = 1, initialSkills = {''Register''}, vacationDays = {1}\<rparr>"

definition shiftE :: shift where
  "shiftE = \<lparr>employeeId = 2, shiftStart = 8, shiftEnd = 10, shiftSkill = ''Bakery''\<rparr>"

section \<open>A skill with the name of a property of \<^verbatim>\<open>Object.prototype\<close>: a scenario\<close>

text \<open>
  Scenario A with the skill \<open>constructor\<close> in the place of \<open>Register\<close>, and the shift of the
  untrained employee with learning rate 1000 on that skill.
\<close>

definition dayK :: day where
  "dayK = dayA\<lparr>requiredSkills := [''constructor'']\<rparr>"

definition empK :: employee where
  "empK = (empA 1 1)\<lparr>initialSkills := {''constructor''}\<rparr>"

definition shiftK :: shift where
  "shiftK = shiftA\<lparr>shiftSkill := ''constructor''\<rparr>"

definition shiftL :: shift where
  "shiftL = shiftV\<lparr>shiftSkill := ''constructor''\<rparr>"

section \<open>Payroll: proofs\<close>

text \<open>
  The rounding to a double is exact on the integers below \<open>2^53\<close> in magnitude, and the
  floor of the rounded quotient of such an integer by 100 is the integer quotient.
\<close>

lemma bits_bounds: "n > 0 \<Longrightarrow> 2 ^ (bits n - 1) \<le> n \<and> n < 2 ^ bits n"
proof (induction n rule: bits.induct)
  case (1 n)
  show ?case
  proof (cases "n div 2 = 0")
    case True
    then have "n = 1" using 1(2) by arith
    then show ?thesis by (simp add: bits.simps [of "Suc 0"] bits.simps [of 0])
  next
    case False
    then have ih: "2 ^ (bits (n div 2) - 1) \<le> n div 2 \<and> n div 2 < 2 ^ bits (n div 2)"
      using 1 by simp
    have pos: "bits (n div 2) > 0" using False by (simp add: bits.simps [of "n div 2"])
    have b: "bits n = Suc (bits (n div 2))" using 1(2) by (simp add: bits.simps [of n])
    have p: "(2::nat) ^ (bits n - 1) = 2 * 2 ^ (bits (n div 2) - 1)"
      using pos b by (cases "bits (n div 2)") simp_all
    have q: "(2::nat) ^ bits n = 2 * 2 ^ bits (n div 2)" using b by simp
    have "2 * 2 ^ (bits (n div 2) - 1) \<le> 2 * (n div 2)" using ih by simp
    then have lo: "2 * 2 ^ (bits (n div 2) - 1) \<le> n" by arith
    have "2 * (n div 2) + 2 \<le> 2 * 2 ^ bits (n div 2)" using ih by simp
    then have hi: "n < 2 * 2 ^ bits (n div 2)" by arith
    show ?thesis using lo hi by (simp only: p q simp_thms)
  qed
qed

lemma ilog2_ge1:
  assumes "1 \<le> x"
  shows "2 powi ilog2 x \<le> x \<and> x < 2 powi (ilog2 x + 1)"
proof -
  define n where "n = nat \<lfloor>x\<rfloor>"
  have n: "n > 0" "rat_of_nat n \<le> x" "x < rat_of_nat n + 1"
    using assms unfolding n_def by (simp_all add: le_floor_iff) linarith+
  have e: "ilog2 x = int (bits n) - 1" using assms by (simp add: ilog2_def n_def)
  have bn: "bits n > 0" using n(1) by (simp add: bits.simps [of n])
  have b: "2 ^ (bits n - 1) \<le> n" "n < 2 ^ bits n" using bits_bounds [OF n(1)] by simp_all
  have p1: "(2::rat) powi (int (bits n) - 1) = 2 ^ (bits n - 1)"
    using bn by (simp add: power_int_def nat_diff_distrib')
  have l: "(2::rat) ^ (bits n - 1) \<le> rat_of_nat n"
    using b(1) by (metis of_nat_le_iff of_nat_numeral of_nat_power)
  have p2: "(2::rat) powi (int (bits n) - 1 + 1) = 2 ^ bits n"
    by (simp add: power_int_def)
  have u: "rat_of_nat n + 1 \<le> 2 ^ bits n"
  proof -
    have "n + 1 \<le> 2 ^ bits n" using b(2) by simp
    then have "rat_of_nat (n + 1) \<le> rat_of_nat (2 ^ bits n)" by (simp only: of_nat_le_iff)
    then show ?thesis by simp
  qed
  have "(2::rat) ^ (bits n - 1) \<le> x" using l n(2) by linarith
  moreover have "x < (2::rat) ^ bits n" using u n(3) by linarith
  ultimately show ?thesis by (simp only: e p1 p2 simp_thms)
qed

lemma roundHalfEven_of_int [simp]: "roundHalfEven (of_int n) = n"
  by (simp add: roundHalfEven_def)

lemma roundHalfEven_ge:
  assumes "of_int k \<le> x"
  shows "k \<le> roundHalfEven x"
proof -
  have "k \<le> \<lfloor>x\<rfloor>" using assms by (simp add: le_floor_iff)
  then show ?thesis by (auto simp: roundHalfEven_def Let_def)
qed

lemma roundHalfEven_lt:
  assumes "x < of_int k - 1 / 2"
  shows "roundHalfEven x < k"
proof -
  have f: "\<lfloor>x\<rfloor> < k" using assms by (simp add: floor_less_iff)
  show ?thesis
  proof (cases "\<lfloor>x\<rfloor> = k - 1")
    case True
    then have "x - of_int \<lfloor>x\<rfloor> < 1 / 2" using assms by simp
    then show ?thesis using f by (simp add: roundHalfEven_def Let_def)
  next
    case False
    then have "\<lfloor>x\<rfloor> + 1 < k" using f by simp
    then show ?thesis by (auto simp: roundHalfEven_def Let_def)
  qed
qed

lemma ilog2_le:
  assumes "0 < x" and "x < 2 ^ n" and "0 < n"
  shows "ilog2 x < int n"
proof (cases "1 \<le> x")
  case True
  then have "2 powi ilog2 x \<le> x" using ilog2_ge1 by simp
  then have lt: "(2::rat) powi ilog2 x < 2 ^ n" using assms(2) by linarith
  show ?thesis
  proof (rule ccontr)
    assume "\<not> ilog2 x < int n"
    then have "int n \<le> ilog2 x" by simp
    then have "(2::rat) powi int n \<le> 2 powi ilog2 x" by (intro power_int_increasing) simp_all
    then show False using lt by simp
  qed
next
  case False
  then have "ilog2 x \<le> 0" by (simp add: ilog2_def)
  then show ?thesis using assms(3) by simp
qed

lemma ilog2_nonneg: "1 \<le> x \<Longrightarrow> 0 \<le> ilog2 x"
proof -
  assume x: "1 \<le> x"
  then have "nat \<lfloor>x\<rfloor> \<noteq> 0" by (simp add: le_floor_iff)
  then have "bits (nat \<lfloor>x\<rfloor>) > 0" by (simp add: bits.simps [of "nat \<lfloor>x\<rfloor>"])
  then show ?thesis using x by (simp add: ilog2_def)
qed

lemma roundDouble_exact:
  assumes "0 \<le> p" and "p < 2 ^ 53"
  shows "roundDouble (of_int p) = of_int p"
proof (cases "p = 0")
  case True
  then show ?thesis by (simp add: roundDouble_def)
next
  case False
  define x where "x = rat_of_int p"
  have "1 \<le> p" using assms(1) False by simp
  then have x1: "1 \<le> x" unfolding x_def by simp
  have x2: "x < 2 ^ 53"
    unfolding x_def using assms(2) by (metis of_int_less_iff of_int_numeral of_int_power)
  have x: "1 \<le> x" "x < 2 ^ 53" "x \<noteq> 0" "\<bar>x\<bar> = x"
    using x1 x2 by simp_all
  define e where "e = ilog2 x"
  have e: "0 \<le> e" "e < 53" unfolding e_def using x ilog2_nonneg ilog2_le [of x 53] by simp_all
  define m where "m = nat (52 - e)"
  have ulp: "(2::rat) powi (e - 52) = 1 / 2 ^ m"
    using e by (simp add: power_int_def m_def inverse_eq_divide power_one_over)
  have "x / (1 / 2 ^ m) = of_int (p * 2 ^ m)" by (simp add: x_def)
  then have "roundHalfEven (x / (1 / 2 ^ m)) = p * 2 ^ m" by (simp only: roundHalfEven_of_int)
  then have "roundDouble x = of_int (p * 2 ^ m) * (1 / 2 ^ m)"
    using x(3,4) by (simp add: roundDouble_def Let_def e_def [symmetric] ulp)
  then show ?thesis by (simp add: x_def)
qed

lemma roundHalfEven_neg: "roundHalfEven (- x) = - roundHalfEven x"
proof (cases "x = of_int \<lfloor>x\<rfloor>")
  case True
  then obtain n where "x = of_int n" by blast
  then have "roundHalfEven x = n" "roundHalfEven (- x) = - n"
    using roundHalfEven_of_int [of "- n"] by simp_all
  then show ?thesis by simp
next
  case False
  define f where "f = \<lfloor>x\<rfloor>"
  define d where "d = x - of_int f"
  have f: "of_int f \<le> x" "x < of_int f + 1" "x \<noteq> of_int f"
    using False by (simp_all add: f_def) linarith
  have nf: "\<lfloor>- x\<rfloor> = - f - 1"
    using f by (intro floor_unique) simp_all
  have nd: "- x - of_int (- f - 1) = 1 - d" by (simp add: d_def)
  have d: "0 < d" "d < 1" using f by (simp_all add: d_def)
  have r: "roundHalfEven x = (if d < 1 / 2 then f else if d > 1 / 2 then f + 1
                              else if even f then f else f + 1)"
    by (simp add: roundHalfEven_def Let_def f_def d_def)
  have nr: "roundHalfEven (- x)
              = (if 1 - d < 1 / 2 then - f - 1 else if 1 - d > 1 / 2 then - f
                 else if even (- f - 1) then - f - 1 else - f)"
    unfolding roundHalfEven_def Let_def nf nd by simp
  show ?thesis
  proof (cases "d < 1 / 2")
    case True
    then show ?thesis unfolding r nr by simp
  next
    case False
    show ?thesis
    proof (cases "d > 1 / 2")
      case True
      then show ?thesis unfolding r nr by simp
    next
      case nh: False
      with False have "d = 1 / 2" by simp
      then show ?thesis unfolding r nr by simp
    qed
  qed
qed

lemma roundDouble_neg: "roundDouble (- x) = - roundDouble x"
proof (cases "x = 0")
  case True
  then show ?thesis by (simp add: roundDouble_def)
next
  case False
  have "roundHalfEven (- x / 2 powi (ilog2 \<bar>x\<bar> - 52))
          = - roundHalfEven (x / 2 powi (ilog2 \<bar>x\<bar> - 52))"
    using roundHalfEven_neg [of "x / 2 powi (ilog2 \<bar>x\<bar> - 52)"] by simp
  then show ?thesis using False by (simp add: roundDouble_def Let_def)
qed

lemma roundHalfEven_gt:
  assumes "of_int k - 1 / 2 < x"
  shows "k \<le> roundHalfEven x"
proof (cases "of_int k \<le> x")
  case True
  then show ?thesis by (rule roundHalfEven_ge)
next
  case False
  then have "\<lfloor>x\<rfloor> = k - 1" using assms by (intro floor_unique) simp_all
  moreover have "x - of_int (k - 1) > 1 / 2" using assms by simp
  ultimately show ?thesis by (simp add: roundHalfEven_def Let_def)
qed

lemma roundDouble_exact_abs:
  assumes "\<bar>p\<bar> < 2 ^ 53"
  shows "roundDouble (of_int p) = of_int p"
proof (cases "0 \<le> p")
  case True
  then show ?thesis using assms by (intro roundDouble_exact) simp_all
next
  case False
  then have "roundDouble (of_int (- p)) = of_int (- p)"
    using assms by (intro roundDouble_exact) simp_all
  then show ?thesis using roundDouble_neg [of "of_int p"] by simp
qed

lemma roundDouble_quotient_bounds:
  assumes "0 < p" and "p < 2 ^ 53"
  shows "of_int (p div 100) \<le> roundDouble (of_int p / 100)"
    and "roundDouble (of_int p / 100) < of_int (p div 100) + 1"
    and "p mod 100 \<noteq> 0 \<Longrightarrow> of_int (p div 100) < roundDouble (of_int p / 100)"
proof -
  define x where "x = rat_of_int p / 100"
  define q where "q = p div 100"
  define r where "r = p mod 100"
  have p: "p = q * 100 + r" "0 \<le> r" "r < 100" by (simp_all add: q_def r_def)
  have xq: "x = of_int q + of_int r / 100" unfolding x_def by (subst p(1)) (simp add: add_divide_distrib)
  have x: "0 < x" "x \<noteq> 0" "\<bar>x\<bar> = x" using assms by (simp_all add: x_def)
  have "rat_of_int p < 2 ^ 53" using assms(2) by (metis of_int_less_iff of_int_numeral of_int_power)
  then have "x < 2 ^ 47" by (simp add: x_def)
  then have e: "ilog2 x < 47" using ilog2_le [OF x(1), of 47] by simp
  define m where "m = nat (52 - ilog2 x)"
  have m: "6 \<le> m" using e by (simp add: m_def)
  have ulp: "(2::rat) powi (ilog2 x - 52) = 1 / 2 ^ m"
    using e by (simp add: power_int_def m_def inverse_eq_divide power_one_over)
  define N where "N = x * 2 ^ m"
  have big: "(64::rat) \<le> 2 ^ m"
  proof -
    have "(2::rat) ^ 6 \<le> 2 ^ m" using m by (intro power_increasing) simp_all
    then show ?thesis by simp
  qed
  have rd: "roundDouble x = of_int (roundHalfEven N) / 2 ^ m"
    using x(2,3) by (simp add: roundDouble_def Let_def ulp N_def)
  have lo: "q * 2 ^ m \<le> roundHalfEven N"
  proof (rule roundHalfEven_ge)
    have "of_int q * 2 ^ m \<le> x * (2::rat) ^ m" using p(2) by (simp add: xq)
    then show "rat_of_int (q * 2 ^ m) \<le> N" by (simp add: N_def)
  qed
  have hi: "roundHalfEven N < (q + 1) * 2 ^ m"
  proof (rule roundHalfEven_lt)
    have "of_int r / 100 \<le> (99::rat) / 100" using p(3) by simp
    then have "x \<le> of_int q + 99 / 100" by (simp add: xq)
    then have "N \<le> (of_int q + 99 / 100) * 2 ^ m" by (simp add: N_def)
    also have "\<dots> = of_int (q + 1) * 2 ^ m - 2 ^ m / 100" by (simp add: algebra_simps)
    also have "\<dots> < of_int (q + 1) * 2 ^ m - 1 / 2" using big by simp
    finally show "N < rat_of_int ((q + 1) * 2 ^ m) - 1 / 2" by simp
  qed
  have pos: "(0::rat) < 2 ^ m" by simp
  have "of_int q \<le> roundDouble x"
  proof -
    have "rat_of_int (q * 2 ^ m) \<le> of_int (roundHalfEven N)" using lo by (simp only: of_int_le_iff)
    then have "of_int q * 2 ^ m \<le> rat_of_int (roundHalfEven N)" by simp
    then show ?thesis unfolding rd using pos by (simp add: pos_le_divide_eq)
  qed
  then show "of_int (p div 100) \<le> roundDouble (of_int p / 100)" by (simp add: x_def q_def)
  have "roundDouble x < of_int q + 1"
  proof -
    have "rat_of_int (roundHalfEven N) < of_int ((q + 1) * 2 ^ m)" using hi by (simp only: of_int_less_iff)
    then have "rat_of_int (roundHalfEven N) < (of_int q + 1) * 2 ^ m" by simp
    then show ?thesis unfolding rd using pos by (simp add: pos_divide_less_eq)
  qed
  then show "roundDouble (of_int p / 100) < of_int (p div 100) + 1" by (simp add: x_def q_def)
  show "of_int (p div 100) < roundDouble (of_int p / 100)" if "p mod 100 \<noteq> 0"
  proof -
    have "1 \<le> r" using that p(2) by (simp add: r_def)
    then have "(1::rat) / 100 \<le> of_int r / 100" by simp
    then have "of_int q + 1 / 100 \<le> x" by (simp add: xq)
    then have "(of_int q + 1 / 100) * 2 ^ m \<le> N" by (simp add: N_def)
    moreover have "(of_int q + 1 / 100) * 2 ^ m = of_int q * 2 ^ m + 2 ^ m / (100::rat)"
      by (simp add: algebra_simps)
    moreover have "(1::rat) / 2 < 2 ^ m / 100" using big by simp
    ultimately have "rat_of_int (q * 2 ^ m + 1) - 1 / 2 < N" by simp
    then have "q * 2 ^ m + 1 \<le> roundHalfEven N" by (rule roundHalfEven_gt)
    then have "q * 2 ^ m < roundHalfEven N" by simp
    then have "rat_of_int (q * 2 ^ m) < of_int (roundHalfEven N)" by (simp only: of_int_less_iff)
    then have "of_int q * 2 ^ m < rat_of_int (roundHalfEven N)" by simp
    then have "of_int q < roundDouble x" unfolding rd using pos by (simp add: pos_less_divide_eq)
    then show ?thesis by (simp add: x_def q_def)
  qed
qed

lemma roundDouble_quotient_abs:
  assumes "\<bar>p\<bar> < 2 ^ 53"
  shows "\<lfloor>roundDouble (of_int p / 100)\<rfloor> = p div 100"
proof -
  consider "p = 0" | "0 < p" | "p < 0" by linarith
  then show ?thesis
  proof cases
    case 1
    then show ?thesis by (simp add: roundDouble_def)
  next
    case 2
    then have lt: "p < 2 ^ 53" using assms by simp
    from roundDouble_quotient_bounds(1,2) [OF 2 lt] show ?thesis by (simp add: floor_unique)
  next
    case 3
    define a where "a = - p"
    have a: "0 < a" "a < 2 ^ 53" using 3 assms by (simp_all add: a_def)
    have neg: "roundDouble (of_int p / 100) = - roundDouble (of_int a / 100)"
      using roundDouble_neg [of "of_int a / 100"] by (simp add: a_def)
    show ?thesis
    proof (cases "a mod 100 = 0")
      case True
      then obtain c where c: "a = 100 * c" by (auto simp: mod_eq_0_iff_dvd)
      then have "0 \<le> c" "c < 2 ^ 53" using a by simp_all
      then have "roundDouble (of_int c) = of_int c" by (rule roundDouble_exact)
      moreover have "rat_of_int a / 100 = of_int c" by (simp add: c)
      ultimately have "roundDouble (of_int p / 100) = of_int (- c)" by (simp add: neg)
      moreover have "p div 100 = - c" using c by (simp add: a_def)
      ultimately show ?thesis by simp
    next
      case False
      from roundDouble_quotient_bounds(2,3) [OF a] False
      have b: "of_int (a div 100) < roundDouble (of_int a / 100)"
        "roundDouble (of_int a / 100) < of_int (a div 100) + 1" by simp_all
      have "\<lfloor>roundDouble (of_int p / 100)\<rfloor> = - (a div 100) - 1"
        unfolding neg using b by (intro floor_unique) simp_all
      moreover have "p div 100 = - (a div 100) - 1"
      proof -
        have "p = - a" by (simp add: a_def)
        then show ?thesis using False by (simp add: zdiv_zminus1_eq_if)
      qed
      ultimately show ?thesis by simp
    qed
  qed
qed

lemma roundHalfEven_div:
  assumes "0 < b"
  shows "roundHalfEven (of_int a / of_int b) =
           (if 2 * (a mod b) < b then a div b
            else if 2 * (a mod b) > b then a div b + 1
            else if even (a div b) then a div b else a div b + 1)"
proof -
  have f: "\<lfloor>rat_of_int a / rat_of_int b\<rfloor> = a div b" by (rule floor_divide_of_int_eq)
  have "rat_of_int a = of_int (a div b) * of_int b + of_int (a mod b)"
    by (metis div_mult_mod_eq of_int_add of_int_mult)
  then have d: "rat_of_int a / rat_of_int b - of_int (a div b) = of_int (a mod b) / of_int b"
    using assms by (simp add: field_simps)
  have lt: "rat_of_int (a mod b) / of_int b < 1 / 2 \<longleftrightarrow> 2 * (a mod b) < b"
  proof -
    have "rat_of_int (a mod b) / of_int b < 1 / 2 \<longleftrightarrow> rat_of_int (2 * (a mod b)) < of_int b"
      using assms by (simp add: field_simps)
    then show ?thesis by (simp only: of_int_less_iff)
  qed
  have gt: "rat_of_int (a mod b) / of_int b > 1 / 2 \<longleftrightarrow> 2 * (a mod b) > b"
  proof -
    have "rat_of_int (a mod b) / of_int b > 1 / 2 \<longleftrightarrow> rat_of_int (2 * (a mod b)) > of_int b"
      using assms by (simp add: field_simps)
    then show ?thesis by (simp only: of_int_less_iff)
  qed
  show ?thesis unfolding roundHalfEven_def Let_def f d lt gt ..
qed

lemma roundDouble_big:
  assumes "0 < a" and "e = int (bits (nat a)) - 53" and "0 \<le> e"
  shows "roundDouble (of_int a) = of_int (roundHalfEven (of_int a / of_int (2 ^ nat e)) * 2 ^ nat e)"
proof -
  have x: "rat_of_int a \<noteq> 0" "\<bar>rat_of_int a\<bar> = of_int a" "1 \<le> rat_of_int a"
    using assms(1) by simp_all
  have "ilog2 (rat_of_int a) - 52 = e" using x(3) assms(2) by (simp add: ilog2_def)
  moreover have "(2::rat) powi e = 2 ^ nat e" using assms(3) by (simp add: power_int_def)
  ultimately show ?thesis using x(1,2) by (simp add: roundDouble_def Let_def)
qed

lemma roundDouble_small:
  assumes "0 < b" and "b \<le> a" and "m = 53 - int (bits (nat (a div b)))" and "0 \<le> m"
  shows "roundDouble (of_int a / of_int b)
           = of_int (roundHalfEven (of_int (a * 2 ^ nat m) / of_int b)) / 2 ^ nat m"
proof -
  define x where "x = rat_of_int a / rat_of_int b"
  have x: "x \<noteq> 0" "\<bar>x\<bar> = x" "1 \<le> x" using assms(1,2) by (simp_all add: x_def)
  have f: "\<lfloor>x\<rfloor> = a div b" unfolding x_def by (rule floor_divide_of_int_eq)
  have "ilog2 x - 52 = - m" using x(3) assms(3) by (simp add: ilog2_def f)
  moreover have "(2::rat) powi (- m) = 1 / 2 ^ nat m"
    using assms(4) by (cases "m = 0") (simp_all add: power_int_def inverse_eq_divide power_one_over)
  moreover have "x / (1 / 2 ^ nat m) = of_int (a * 2 ^ nat m) / of_int b" by (simp add: x_def)
  ultimately show ?thesis using x(1,2) unfolding x_def [symmetric]
    by (simp add: roundDouble_def Let_def)
qed

lemma overtimeRate_div:
  assumes "\<bar>salaryPerHour e * overtimeMod org\<bar> < 9007199254740992"
  shows "overtimeRate org e = (salaryPerHour e * overtimeMod org) div 100"
proof -
  have lt: "\<bar>salaryPerHour e * overtimeMod org\<bar> < 2 ^ 53" using assms by simp
  have "roundDouble (rat_of_int (salaryPerHour e * overtimeMod org))
          = rat_of_int (salaryPerHour e * overtimeMod org)"
    using lt by (rule roundDouble_exact_abs)
  moreover have "\<lfloor>roundDouble (rat_of_int (salaryPerHour e * overtimeMod org) / 100)\<rfloor>
          = (salaryPerHour e * overtimeMod org) div 100"
    using lt by (rule roundDouble_quotient_abs)
  ultimately show ?thesis by (simp only: overtimeRate_def)
qed

lemma getWeekIndex_div: "getWeekIndex d = (d - 1) div 7"
proof -
  have "\<lfloor>rat_of_int (d - 1) / rat_of_int 7\<rfloor> = (d - 1) div 7"
    by (rule floor_divide_of_int_eq)
  then show ?thesis by (simp add: getWeekIndex_def)
qed

lemma specHourBill_div:
  "specHourBill org e used =
     (if used < maxHoursPerWeek e then salaryPerHour e
      else (salaryPerHour e * overtimeMod org) div 100)"
proof -
  have "\<lfloor>rat_of_int (salaryPerHour e * overtimeMod org) / rat_of_int 100\<rfloor>
          = (salaryPerHour e * overtimeMod org) div 100"
    by (rule floor_divide_of_int_eq)
  then show ?thesis by (simp add: specHourBill_def)
qed

lemma overtimeRate_exact:
  "exactRate org e \<Longrightarrow> overtimeRate org e = (salaryPerHour e * overtimeMod org) div 100"
  unfolding exactRate_def by (rule overtimeRate_div)

lemma specHourBill_overtime:
  "exactRate org e \<Longrightarrow> \<not> used < maxHoursPerWeek e \<Longrightarrow>
     specHourBill org e used = overtimeRate org e"
  by (simp add: specHourBill_div overtimeRate_exact)

lemma sum_specHourBill_base:
  "int n \<le> maxHoursPerWeek e - used \<Longrightarrow>
     (\<Sum>k<n. specHourBill org e (used + int k)) = int n * salaryPerHour e"
proof (induction n)
  case 0
  then show ?case by simp
next
  case (Suc n)
  then have "used + int n < maxHoursPerWeek e" by simp
  with Suc show ?case by (simp add: specHourBill_def algebra_simps)
qed

lemma sum_specHourBill_over:
  "exactRate org e \<Longrightarrow> maxHoursPerWeek e \<le> used \<Longrightarrow>
     (\<Sum>k<n. specHourBill org e (used + int k)) = int n * overtimeRate org e"
proof (induction n)
  case 0
  then show ?case by simp
next
  case (Suc n)
  then have "\<not> used + int n < maxHoursPerWeek e" by simp
  with Suc show ?case by (simp add: specHourBill_overtime algebra_simps)
qed

lemma sum_specHourBill_split:
  "(\<Sum>k<a + b. specHourBill org e (used + int k))
     = (\<Sum>k<a. specHourBill org e (used + int k))
       + (\<Sum>k<b. specHourBill org e (used + int a + int k))"
proof (induction b)
  case 0
  then show ?case by simp
next
  case (Suc b)
  then show ?case by (simp add: add.assoc)
qed

lemma calculatePayroll_cost:
  assumes "0 \<le> d" and ex: "exactRate org e"
  shows "fst (calculatePayroll org e wh i d) = (\<Sum>k<nat d. specHourBill org e (wh i + int k))"
proof -
  define b where "b = min d (max 0 (maxHoursPerWeek e - wh i))"
  have b: "0 \<le> b" "b \<le> d" using assms by (auto simp: b_def)
  have cost: "fst (calculatePayroll org e wh i d) = b * salaryPerHour e + (d - b) * overtimeRate org e"
    by (simp add: calculatePayroll_def Let_def b_def)
  have nat: "nat d = nat b + nat (d - b)" using b by simp
  have base: "(\<Sum>k<nat b. specHourBill org e (wh i + int k)) = b * salaryPerHour e"
  proof (cases "b = 0")
    case True
    then show ?thesis by simp
  next
    case False
    then have "int (nat b) \<le> maxHoursPerWeek e - wh i" using b by (auto simp: b_def)
    then have "(\<Sum>k<nat b. specHourBill org e (wh i + int k)) = int (nat b) * salaryPerHour e"
      by (rule sum_specHourBill_base)
    then show ?thesis using b by simp
  qed
  have over: "(\<Sum>k<nat (d - b). specHourBill org e (wh i + int (nat b) + int k))
                = (d - b) * overtimeRate org e"
  proof (cases "b = d")
    case True
    then show ?thesis by simp
  next
    case False
    then have "maxHoursPerWeek e \<le> wh i + int (nat b)" using b by (auto simp: b_def)
    then have "(\<Sum>k<nat (d - b). specHourBill org e (wh i + int (nat b) + int k))
                 = int (nat (d - b)) * overtimeRate org e"
      by (rule sum_specHourBill_over [OF ex])
    then show ?thesis using b by simp
  qed
  show ?thesis
    unfolding cost nat sum_specHourBill_split base over ..
qed

lemma payHour_bill:
  "exactRate org e \<Longrightarrow> fst (payHour org e w dId) = specHourBill org e (getHoursThisWeek w dId)"
  by (simp add: payHour_def Let_def addHour_def getHoursThisWeek_def specHourBill_div
      overtimeRate_exact)

lemma payHour_counter: "snd (payHour org e w dId) = addHour w dId"
  by (simp add: payHour_def Let_def)

section \<open>Coverage: proofs\<close>

lemma skillPoints_logError [simp]: "skillPoints (logError m st) = skillPoints st"
  by (simp add: logError_def)

lemma isTrained_cong: "skillPoints st = skillPoints st' \<Longrightarrow> isTrained st = isTrained st'"
  by (simp add: isTrained_def fun_eq_iff)

lemma fold_addCoverage:
  "distinct hs \<Longrightarrow>
   fold (addCoverage b k) hs cm h' k' =
     (if \<not> inheritedName k \<and> k' = k \<and> h' \<in> set hs
      then (if b then (fst (cm h' k') + 1, snd (cm h' k')) else (fst (cm h' k'), snd (cm h' k') + 1))
      else cm h' k')"
proof (induction hs arbitrary: cm)
  case Nil
  then show ?case by simp
next
  case (Cons h hs)
  then show ?case by (auto simp: addCoverage_def)
qed

lemma skillPoints_shiftBody:
  "skillPoints (accState (shiftBody org es dy s acc)) = skillPoints (accState acc)"
  by (simp add: shiftBody_def Let_def split: option.split)

lemma skillPoints_fold_shiftBody:
  "skillPoints (accState (fold (shiftBody org es dy) shifts acc)) = skillPoints (accState acc)"
  by (induction shifts arbitrary: acc) (simp_all add: skillPoints_shiftBody)

lemma coverageMap_shiftBody:
  "coverageMap (shiftBody org es dy s acc) h k =
     (if \<not> inheritedName k \<and> getEmployee es (employeeId s) \<noteq> None \<and> shiftSkill s = k
         \<and> shiftStart s \<le> h \<and> h < shiftEnd s
      then (if isTrained (accState acc) (employeeId s) k
            then (fst (coverageMap acc h k) + 1, snd (coverageMap acc h k))
            else (fst (coverageMap acc h k), snd (coverageMap acc h k) + 1))
      else coverageMap acc h k)"
proof (cases "getEmployee es (employeeId s)")
  case None
  then show ?thesis by (simp add: shiftBody_def)
next
  case (Some emp)
  have tr: "isTrained (st\<lparr>weeklyHours := w\<rparr>) = isTrained st" for st :: vstate and w
    by (rule isTrained_cong) simp
  show ?thesis
    using Some by (simp add: shiftBody_def Let_def fold_addCoverage tr isTrained_cong [OF skillPoints_logError])
qed

lemma coverageMap_fold_shiftBody:
  "coverageMap (fold (shiftBody org es dy) shifts acc) h k =
     (if inheritedName k then coverageMap acc h k
      else (fst (coverageMap acc h k) + length (trainedOn (accState acc) k (staffed es shifts h k)),
            snd (coverageMap acc h k)
              + length (untrainedOn (accState acc) k (staffed es shifts h k))))"
proof (induction shifts arbitrary: acc)
  case Nil
  then show ?case by (simp add: staffed_def trainedOn_def untrainedOn_def)
next
  case (Cons s shifts)
  have tr: "isTrained (accState (shiftBody org es dy s acc)) = isTrained (accState acc)"
    by (rule isTrained_cong) (rule skillPoints_shiftBody)
  show ?case
    by (auto simp: Cons.IH coverageMap_shiftBody tr staffed_def trainedOn_def untrainedOn_def)
qed

lemma coverageMap_shiftLoop:
  "coverageMap (shiftLoop org es dy shifts st) h k =
     (if inheritedName k then (0, 0)
      else (length (trainedOn st k (staffed es shifts h k)),
            length (untrainedOn st k (staffed es shifts h k))))"
  by (simp add: shiftLoop_def coverageMap_fold_shiftBody)

lemma hourlyCoverage_spec: "hourlyCoverage (t, u) = specCoverage t u"
  by (auto simp: hourlyCoverage_def specCoverage_def)

lemma foldE_hourCell:
  "foldE (hourCell es st shifts cm k) hs a = Inr a' \<Longrightarrow>
     fst a' = fst a + (\<Sum>h\<leftarrow>hs. hourlyCoverage (cm h k))"
proof (induction hs arbitrary: a)
  case Nil
  then show ?case by simp
next
  case (Cons h hs)
  from Cons.prems obtain b where b: "hourCell es st shifts cm k h a = Inr b"
    and rest: "foldE (hourCell es st shifts cm k) hs b = Inr a'"
    by (auto split: sum.splits)
  from b have "fst b = fst a + hourlyCoverage (cm h k)"
    by (auto simp: hourCell_def split: if_splits sum.splits)
  with Cons.IH [OF rest] show ?case by simp
qed

lemma achievedLoop_sum:
  "foldE (\<lambda>k. foldE (hourCell es st shifts cm k) hs) ks a = Inr a' \<Longrightarrow>
     fst a' = fst a + (\<Sum>k\<leftarrow>ks. \<Sum>h\<leftarrow>hs. hourlyCoverage (cm h k))"
proof (induction ks arbitrary: a)
  case Nil
  then show ?case by simp
next
  case (Cons k ks)
  from Cons.prems obtain b where b: "foldE (hourCell es st shifts cm k) hs a = Inr b"
    and rest: "foldE (\<lambda>k. foldE (hourCell es st shifts cm k) hs) ks b = Inr a'"
    by (auto split: sum.splits)
  from foldE_hourCell [OF b] Cons.IH [OF rest] show ?case by simp
qed

lemma specCoverage_values: "specCoverage t u \<in> {0, 1 / 2, 1}"
  by (simp add: specCoverage_def)

lemma specCoverage_le_1: "specCoverage t u \<le> 1"
  by (simp add: specCoverage_def)

lemma specCoverage_alt:
  "(if t > 0 then 1 else if u \<ge> 2 then 1 else if u = 1 then 1 / 2 else 0) = specCoverage t u"
  by (auto simp: specCoverage_def)

lemma skillCoverage_spec:
  "skillCoverage (knownSkills sim) xs k
     = specCoverage (length (knowing sim k xs)) (length (notKnowing sim k xs))"
  unfolding skillCoverage_def Let_def knowing_def notKnowing_def by (rule specCoverage_alt)

lemma capacityBody_spec:
  assumes "capacityBody es (filter (activeAt h) shifts) k sim = Inr sim'"
  shows "achievedSkillHours sim' = achievedSkillHours sim
           + specCoverage (length (knowing sim k (activeOn shifts h k)))
                          (length (notKnowing sim k (activeOn shifts h k)))"
proof (cases "activeOn shifts h k = []")
  case True
  with assms show ?thesis
    by (simp add: capacityBody_def activeOn_def specCoverage_def knowing_def notKnowing_def)
next
  case False
  with assms show ?thesis
    by (auto simp: capacityBody_def activeOn_def Let_def skillCoverage_spec split: if_splits)
qed

lemma length_filter_workers:
  assumes "distinct (map employeeId xs)"
  shows "length (filter P xs) = card (workers (filter P xs))"
proof -
  have "distinct (map employeeId (filter P xs))"
    using assms by (rule distinct_map_filter)
  then have "card (set (map employeeId (filter P xs))) = length (map employeeId (filter P xs))"
    by (rule distinct_card)
  then show ?thesis by (simp add: workers_def)
qed

section \<open>Evaluation of the models on concrete inputs\<close>

lemmas scenario_defs = orgA_def dayA_def empA_def shiftA_def scheduleA_def empB_def empC_def
  shiftsB_def

lemmas common_defs = getEmployee_def totalSkillHours_def dayProfit_def overtimeRate_div
  duration_def inheritedName_def objectPrototypeNames_def

lemmas validator_defs = validateAndScore_def dayBody_def calculateCapacity_def shiftLoop_def
  shiftBody_def achievedLoop_def hourCell_def maxRateBody_def updateTraining_def trainPair_def
  initialState_def dayIds_def lookupDay_def isTrained_def logError_def
  addCoverage_def hourlyCoverage_def calculatePayroll_def
  accumulate_def finalOutput_def empSkillHours_def hourGain_def

lemmas scorer_defs = calculateScore_def scoreDay_def hourStep_def trainingStep_def
  learnerBody_def multiplier_def teacherBody_def payrollBody_def capacityBody_def
  skillCoverage_def firstOccurrences_def activeAt_def promote_def initialSim_def payHour_def
  addHour_def getHoursThisWeek_def getWeekIndex_div

text \<open>
  C6. Scenario A, for any learning and teaching rate of the employee. In the validator of
  \<^verbatim>\<open>rep_validator.js\<close>: coverage 1 at both hours, capacity 1, payroll 20, and a valid
  schedule with total profit 880. In \<^verbatim>\<open>calculateScore\<close> of \<^verbatim>\<open>bah3.js\<close>: after the first
  hour 1 achieved skill-hour, after both hours 2 achieved skill-hours of the 2 required
  (capacity 1) and payroll 20, and the total score 880.
\<close>

theorem scenario_A:
  "hourlyCoverage (coverageMap (shiftLoop orgA [empA lr tr] dayA [shiftA]
                     (initialState [empA lr tr])) 8 ''Register'') = 1
   \<and> hourlyCoverage (coverageMap (shiftLoop orgA [empA lr tr] dayA [shiftA]
                     (initialState [empA lr tr])) 9 ''Register'') = 1
   \<and> map_sum id (\<lambda>m. (capacityD m, metricsPayrollD m))
        (calculateCapacity orgA [empA lr tr] dayA [shiftA] (initialState [empA lr tr]))
       = Inr (1, 20)
   \<and> dayProfit orgA dayA 1 20 = 1000 * 1 - 20 - 100
   \<and> map_sum id snd
        (validateAndScore orgA [empA lr tr] [dayA] scheduleA (initialState [empA lr tr]))
       = Inr (ValidSchedule 880 20 1000 100)
   \<and> map_sum id (\<lambda>st. (achievedSkillHours st, dailyPayroll st))
        (hourStep orgA [empA lr tr] dayA [shiftA] 8 (initialSim [empA lr tr])) = Inr (1, 10)
   \<and> map_sum id (\<lambda>st. (achievedSkillHours st, dailyPayroll st))
        (foldE (hourStep orgA [empA lr tr] dayA [shiftA]) [dayStart dayA..dayEnd dayA - 1]
           (initialSim [empA lr tr])) = Inr (2, 20)
   \<and> totalSkillHours dayA = 2
   \<and> map_sum id fst (calculateScore orgA [empA lr tr] [dayA] scheduleA) = Inr 880"
proof (intro conjI)
  show "hourlyCoverage (coverageMap (shiftLoop orgA [empA lr tr] dayA [shiftA]
                     (initialState [empA lr tr])) 8 ''Register'') = 1"
    by (simp add: scenario_defs common_defs validator_defs Let_def)
  show "hourlyCoverage (coverageMap (shiftLoop orgA [empA lr tr] dayA [shiftA]
                     (initialState [empA lr tr])) 9 ''Register'') = 1"
    by (simp add: scenario_defs common_defs validator_defs Let_def)
  show "map_sum id (\<lambda>m. (capacityD m, metricsPayrollD m))
        (calculateCapacity orgA [empA lr tr] dayA [shiftA] (initialState [empA lr tr]))
       = Inr (1, 20)"
    by (simp add: scenario_defs common_defs validator_defs Let_def)
  show "dayProfit orgA dayA 1 20 = 1000 * 1 - 20 - 100"
    by (simp add: scenario_defs dayProfit_def)
  show "map_sum id snd
        (validateAndScore orgA [empA lr tr] [dayA] scheduleA (initialState [empA lr tr]))
       = Inr (ValidSchedule 880 20 1000 100)"
    by (simp add: scenario_defs common_defs validator_defs Let_def)
  show "map_sum id (\<lambda>st. (achievedSkillHours st, dailyPayroll st))
        (hourStep orgA [empA lr tr] dayA [shiftA] 8 (initialSim [empA lr tr])) = Inr (1, 10)"
    by (simp add: scenario_defs common_defs scorer_defs Let_def)
  show "map_sum id (\<lambda>st. (achievedSkillHours st, dailyPayroll st))
        (foldE (hourStep orgA [empA lr tr] dayA [shiftA]) [dayStart dayA..dayEnd dayA - 1]
           (initialSim [empA lr tr])) = Inr (2, 20)"
    by (simp add: scenario_defs common_defs scorer_defs Let_def)
  show "totalSkillHours dayA = 2"
    by (simp add: scenario_defs totalSkillHours_def)
  show "map_sum id fst (calculateScore orgA [empA lr tr] [dayA] scheduleA) = Inr 880"
    by (simp add: scenario_defs common_defs scorer_defs Let_def)
qed

theorem scenario_A_witness:
  "map_sum id snd
     (validateAndScore orgA [empA 1 1] [dayA] scheduleA (initialState [empA 1 1]))
    = Inr (ValidSchedule 880 20 1000 100)
   \<and> map_sum id fst (calculateScore orgA [empA 1 1] [dayA] scheduleA) = Inr 880"
  using scenario_A [of 1 1] by simp

section \<open>Weekly hours: proofs\<close>

lemma foldE_Cons_Inr:
  "foldE f (x # xs) a = Inr c \<Longrightarrow> \<exists>b. f x a = Inr b \<and> foldE f xs b = Inr c"
  by (auto split: sum.splits)

lemma foldE_preserve:
  assumes "\<And>x a b. x \<in> set xs \<Longrightarrow> f x a = Inr b \<Longrightarrow> g b = g a"
    and "foldE f xs a = Inr b"
  shows "g b = g a"
  using assms
proof (induction xs arbitrary: a)
  case Nil
  then show ?case by simp
next
  case (Cons x xs)
  from foldE_Cons_Inr [OF Cons.prems(2)] obtain c where c: "f x a = Inr c" "foldE f xs c = Inr b"
    by blast
  have "g b = g c"
  proof (rule Cons.IH [OF _ c(2)])
    fix y a' b' assume "y \<in> set xs" "f y a' = Inr b'"
    then show "g b' = g a'" using Cons.prems(1) [of y a' b'] by simp
  qed
  moreover have "g c = g a" using Cons.prems(1) [of x a c] c(1) by simp
  ultimately show ?case by simp
qed

lemma weeklyHours_logError [simp]: "weeklyHours (logError m st) = weeklyHours st"
  by (simp add: logError_def)

lemma weeklyHours_shiftBody:
  "weeklyHours (accState (shiftBody org es dy s acc)) i =
     weeklyHours (accState acc) i
       + (if getEmployee es (employeeId s) \<noteq> None \<and> employeeId s = i then duration s else 0)"
  by (cases "getEmployee es (employeeId s)")
     (simp_all add: shiftBody_def Let_def calculatePayroll_def)

lemma weeklyHours_fold_shiftBody:
  "weeklyHours (accState (fold (shiftBody org es dy) shifts acc)) i =
     weeklyHours (accState acc) i + hoursOn es shifts i"
proof (induction shifts arbitrary: acc)
  case Nil
  then show ?case by (simp add: hoursOn_def)
next
  case (Cons s shifts)
  show ?case by (auto simp: Cons.IH weeklyHours_shiftBody hoursOn_def)
qed

lemma weeklyHours_trainPair:
  "trainPair es shifts ht p st = Inr st' \<Longrightarrow> weeklyHours st' = weeklyHours st"
  by (auto simp: trainPair_def Let_def split: if_splits option.splits)

lemma updateTraining_Inr:
  "updateTraining es shifts ht st = Inr st' \<Longrightarrow>
     foldE (trainPair es shifts ht) (remdups (map (\<lambda>s. (employeeId s, shiftSkill s)) shifts)) st
       = Inr st'"
  by (simp add: updateTraining_def split: if_splits)

lemma weeklyHours_updateTraining:
  "updateTraining es shifts ht st = Inr st' \<Longrightarrow> weeklyHours st' = weeklyHours st"
  by (rule foldE_preserve [where g = weeklyHours, OF _ updateTraining_Inr])
     (auto dest: weeklyHours_trainPair)

lemma weeklyHours_calculateCapacity:
  "calculateCapacity org es dy shifts st = Inr m \<Longrightarrow>
     weeklyHours (metricsState m) i = weeklyHours st i + hoursOn es shifts i"
  by (auto simp: calculateCapacity_def Let_def shiftLoop_def weeklyHours_fold_shiftBody
      split: sum.splits)

lemma weeklyHours_dayBody:
  assumes "dayBody org es ds schedule i st = Inr st'" and "lookupDay ds i = Some dy"
  shows "weeklyHours st' e =
           (if i mod 7 = 0 then 0 else weeklyHours st e)
             + (if isClosed dy then 0 else hoursOn es (schedule i) e)"
proof (cases "isClosed dy")
  case True
  with assms show ?thesis by (auto simp: dayBody_def Let_def accumulate_def)
next
  case False
  define st1 where "st1 = (if i mod 7 = 0 then st\<lparr>weeklyHours := (\<lambda>_. 0)\<rparr> else st)"
  from assms False obtain m st2 where
    m: "calculateCapacity org es dy (schedule i) st1 = Inr m"
    and st2: "updateTraining es (schedule i) (hourlyTeachers m) (metricsState m) = Inr st2"
    and st': "st' = accumulate dy (dayProfit org dy (capacityD m) (metricsPayrollD m))
                      (metricsPayrollD m) st2"
    by (auto simp: dayBody_def Let_def st1_def split: sum.splits)
  have "weeklyHours st' e = weeklyHours st2 e" by (simp add: st' accumulate_def)
  also have "\<dots> = weeklyHours (metricsState m) e"
    using weeklyHours_updateTraining [OF st2] by simp
  also have "\<dots> = weeklyHours st1 e + hoursOn es (schedule i) e"
    by (rule weeklyHours_calculateCapacity [OF m])
  finally show ?thesis using False by (simp add: st1_def)
qed

lemma getWeekIndex_block: "getWeekIndex d = j \<longleftrightarrow> 7 * j + 1 \<le> d \<and> d \<le> 7 * j + 7"
  unfolding getWeekIndex_div by auto

lemma capacityBody_frame:
  "capacityBody es act k st = Inr st' \<Longrightarrow>
     knownSkills st' = knownSkills st \<and> esWeeklyHours st' = esWeeklyHours st
     \<and> trainingPoints st' = trainingPoints st \<and> newSkillsLearned st' = newSkillsLearned st
     \<and> dailyPayroll st' = dailyPayroll st"
  by (auto simp: capacityBody_def Let_def split: if_splits)

lemma capacityLoop_frame:
  assumes "foldE (capacityBody es act) ks st = Inr st'"
  shows "knownSkills st' = knownSkills st" "esWeeklyHours st' = esWeeklyHours st"
    "trainingPoints st' = trainingPoints st" "newSkillsLearned st' = newSkillsLearned st"
    "dailyPayroll st' = dailyPayroll st"
proof -
  have "(\<lambda>s. (knownSkills s, esWeeklyHours s, trainingPoints s, newSkillsLearned s, dailyPayroll s)) st'
        = (\<lambda>s. (knownSkills s, esWeeklyHours s, trainingPoints s, newSkillsLearned s, dailyPayroll s)) st"
    by (rule foldE_preserve [OF _ assms]) (auto dest: capacityBody_frame)
  then show "knownSkills st' = knownSkills st" "esWeeklyHours st' = esWeeklyHours st"
    "trainingPoints st' = trainingPoints st" "newSkillsLearned st' = newSkillsLearned st"
    "dailyPayroll st' = dailyPayroll st"
    by simp_all
qed

lemma payrollBody_frame:
  "payrollBody org es d i st = Inr st' \<Longrightarrow>
     knownSkills st' = knownSkills st \<and> trainingPoints st' = trainingPoints st
     \<and> newSkillsLearned st' = newSkillsLearned st
     \<and> achievedSkillHours st' = achievedSkillHours st"
  by (auto simp: payrollBody_def Let_def split: option.splits)

lemma payrollLoop_frame:
  assumes "foldE (payrollBody org es d) acts st = Inr st'"
  shows "knownSkills st' = knownSkills st" "trainingPoints st' = trainingPoints st"
    "newSkillsLearned st' = newSkillsLearned st" "achievedSkillHours st' = achievedSkillHours st"
proof -
  have "(\<lambda>s. (knownSkills s, trainingPoints s, newSkillsLearned s, achievedSkillHours s)) st'
        = (\<lambda>s. (knownSkills s, trainingPoints s, newSkillsLearned s, achievedSkillHours s)) st"
    by (rule foldE_preserve [OF _ assms]) (auto dest: payrollBody_frame)
  then show "knownSkills st' = knownSkills st" "trainingPoints st' = trainingPoints st"
    "newSkillsLearned st' = newSkillsLearned st" "achievedSkillHours st' = achievedSkillHours st"
    by simp_all
qed

lemma payrollBody_hours:
  "payrollBody org es d i st = Inr st' \<Longrightarrow>
     esWeeklyHours st' j w =
       esWeeklyHours st j w + (if j = i \<and> w = getWeekIndex d then 1 else 0)"
  by (auto simp: payrollBody_def Let_def payHour_def addHour_def split: option.splits)

lemma payrollLoop_hours:
  assumes "foldE (payrollBody org es d) acts st = Inr st'" and "distinct acts"
  shows "esWeeklyHours st' j w =
           esWeeklyHours st j w + (if j \<in> set acts \<and> w = getWeekIndex d then 1 else 0)"
  using assms
proof (induction acts arbitrary: st)
  case Nil
  then show ?case by simp
next
  case (Cons i acts)
  from foldE_Cons_Inr [OF Cons.prems(1)] obtain st1 where
    st1: "payrollBody org es d i st = Inr st1" "foldE (payrollBody org es d) acts st1 = Inr st'"
    by blast
  have "esWeeklyHours st' j w =
          esWeeklyHours st1 j w + (if j \<in> set acts \<and> w = getWeekIndex d then 1 else 0)"
    using Cons.IH [OF st1(2)] Cons.prems(2) by simp
  with payrollBody_hours [OF st1(1), of j w] Cons.prems(2) show ?case by auto
qed

lemma learnerBody_frame:
  "learnerBody es tb ls st = Inr st' \<Longrightarrow>
     knownSkills st' = knownSkills st \<and> esWeeklyHours st' = esWeeklyHours st
     \<and> dailyPayroll st' = dailyPayroll st \<and> achievedSkillHours st' = achievedSkillHours st"
  by (auto simp: learnerBody_def Let_def split: option.splits if_splits)

lemma trainingStep_frame:
  assumes "trainingStep es act st = Inr st'"
  shows "knownSkills st' = knownSkills st" "esWeeklyHours st' = esWeeklyHours st"
    "dailyPayroll st' = dailyPayroll st" "achievedSkillHours st' = achievedSkillHours st"
proof -
  from assms obtain tb where
    l: "foldE (learnerBody es tb)
          (filter (\<lambda>s. shiftSkill s \<notin> knownSkills st (employeeId s)) act) st = Inr st'"
    by (auto simp: trainingStep_def split: sum.splits)
  have "(\<lambda>s. (knownSkills s, esWeeklyHours s, dailyPayroll s, achievedSkillHours s)) st'
        = (\<lambda>s. (knownSkills s, esWeeklyHours s, dailyPayroll s, achievedSkillHours s)) st"
    by (rule foldE_preserve [OF _ l]) (auto dest: learnerBody_frame)
  then show "knownSkills st' = knownSkills st" "esWeeklyHours st' = esWeeklyHours st"
    "dailyPayroll st' = dailyPayroll st" "achievedSkillHours st' = achievedSkillHours st"
    by simp_all
qed

lemma distinct_firstOccurrences [simp]: "distinct (firstOccurrences xs)"
  by (simp add: firstOccurrences_def)

lemma set_firstOccurrences [simp]: "set (firstOccurrences xs) = set xs"
  by (simp add: firstOccurrences_def)

text \<open>The parts of an hour: the states between its steps.\<close>

lemma hourStep_parts:
  assumes "hourStep org es dy shifts h st = Inr st'"
  obtains st2 st3 where
    "foldE (capacityBody es (filter (activeAt h) shifts)) (requiredSkills dy) (promote st) = Inr st2"
    "foldE (payrollBody org es (dayId dy))
       (firstOccurrences (map employeeId (filter (activeAt h) shifts))) st2 = Inr st3"
    "trainingStep es (filter (activeAt h) shifts) st3 = Inr st'"
  using assms by (auto simp: hourStep_def Let_def split: sum.splits)

lemma hourStep_hours:
  assumes "hourStep org es dy shifts h st = Inr st'"
  shows "esWeeklyHours st' j w =
           esWeeklyHours st j w
             + (if j \<in> activeWorkers shifts h \<and> w = getWeekIndex (dayId dy) then 1 else 0)"
proof -
  from assms obtain st2 st3 where
    c: "foldE (capacityBody es (filter (activeAt h) shifts)) (requiredSkills dy) (promote st) = Inr st2"
    and p: "foldE (payrollBody org es (dayId dy))
       (firstOccurrences (map employeeId (filter (activeAt h) shifts))) st2 = Inr st3"
    and t: "trainingStep es (filter (activeAt h) shifts) st3 = Inr st'"
    by (rule hourStep_parts)
  have "esWeeklyHours st' j w = esWeeklyHours st3 j w"
    using trainingStep_frame(2) [OF t] by simp
  also have "\<dots> = esWeeklyHours st2 j w
      + (if j \<in> activeWorkers shifts h \<and> w = getWeekIndex (dayId dy) then 1 else 0)"
    using payrollLoop_hours [OF p] by (simp add: activeWorkers_def)
  also have "esWeeklyHours st2 j w = esWeeklyHours (promote st) j w"
    using capacityLoop_frame(2) [OF c] by simp
  finally show ?thesis by (simp add: promote_def)
qed

lemma hourLoop_hours:
  assumes "foldE (hourStep org es dy shifts) hs st = Inr st'"
  shows "esWeeklyHours st' j w =
           esWeeklyHours st j w
             + (if w = getWeekIndex (dayId dy) then hoursActive shifts hs j else 0)"
  using assms
proof (induction hs arbitrary: st)
  case Nil
  then show ?case by (simp add: hoursActive_def)
next
  case (Cons h hs)
  from foldE_Cons_Inr [OF Cons.prems] obtain st1 where
    st1: "hourStep org es dy shifts h st = Inr st1" "foldE (hourStep org es dy shifts) hs st1 = Inr st'"
    by blast
  show ?case
    using Cons.IH [OF st1(2)] hourStep_hours [OF st1(1), of j w]
    by (auto simp: hoursActive_def)
qed

lemma scoreDay_hours:
  assumes "scoreDay org es schedule dy a = Inr a'"
  shows "esWeeklyHours (snd a') j w =
           esWeeklyHours (snd a) j w
             + (if \<not> isClosed dy \<and> w = getWeekIndex (dayId dy)
                then hoursActive (schedule (dayId dy)) [dayStart dy..dayEnd dy - 1] j else 0)"
proof (cases "isClosed dy")
  case True
  with assms show ?thesis by (auto simp: scoreDay_def)
next
  case False
  with assms obtain st where
    st: "foldE (hourStep org es dy (schedule (dayId dy))) [dayStart dy..dayEnd dy - 1]
           ((snd a)\<lparr>newSkillsLearned := Map.empty, dailyPayroll := 0, achievedSkillHours := 0\<rparr>)
         = Inr st"
    and a': "snd a' = st"
    by (auto simp: scoreDay_def Let_def split: sum.splits)
  from hourLoop_hours [OF st, of j w] False show ?thesis by (simp add: a')
qed

lemma run_block_start:
  assumes "foldE (scoreDay org es schedule) ds a = Inr a'"
    and "\<And>dy. dy \<in> set ds \<Longrightarrow> dayId dy < 7 * j + 1"
    and "esWeeklyHours (snd a) i j = 0"
  shows "esWeeklyHours (snd a') i j = 0"
  using assms
proof (induction ds arbitrary: a)
  case Nil
  then show ?case by simp
next
  case (Cons dy ds)
  from foldE_Cons_Inr [OF Cons.prems(1)] obtain b where
    b: "scoreDay org es schedule dy a = Inr b" "foldE (scoreDay org es schedule) ds b = Inr a'"
    by blast
  have "dayId dy < 7 * j + 1" using Cons.prems(2) by simp
  then have "getWeekIndex (dayId dy) \<noteq> j" by (simp add: getWeekIndex_block)
  then have "esWeeklyHours (snd b) i j = 0"
    using scoreDay_hours [OF b(1), of i j] Cons.prems(3) by simp
  then show ?case using Cons.IH [OF b(2)] Cons.prems(2) by simp
qed

lemmas scenarioW_defs = empW_def closedDay_def openDayW_def daysW_def scheduleW_def

text \<open>
  C3, as amended. \<^verbatim>\<open>calculateScore\<close> of \<^verbatim>\<open>bah3.js\<close> counts the hours of an employee per
  block week \<open>\<lfloor>(dayId - 1) / 7\<rfloor>\<close>: block \<open>j\<close> is the days \<open>7j + 1, \<dots>, 7j + 7\<close> (1--7, 8--14,
  \<dots>); a day adds the hours worked on it to the counter of its own block and leaves the
  counters of all other blocks as they were; and when all days processed so far precede
  the first day of block \<open>j\<close>, the counter of block \<open>j\<close> is 0. \<^verbatim>\<open>validateAndScore\<close> of
  \<^verbatim>\<open>rep_validator.js\<close> keeps one counter per employee and sets it to 0 before the day ids
  divisible by 7 and before no other: after a day the counter is the hours billed on that
  day, plus the counter before the day unless the day id is divisible by 7.
\<close>

theorem weekly_blocks:
  "(getWeekIndex d = j \<longleftrightarrow> 7 * j + 1 \<le> d \<and> d \<le> 7 * j + 7)
   \<and> (\<forall>a'. scoreDay org es schedule dy a = Inr a' \<longrightarrow>
          esWeeklyHours (snd a') i w =
            esWeeklyHours (snd a) i w
              + (if \<not> isClosed dy \<and> w = getWeekIndex (dayId dy)
                 then hoursActive (schedule (dayId dy)) [dayStart dy..dayEnd dy - 1] i else 0))
   \<and> (\<forall>a'. foldE (scoreDay org es schedule) ds (0, initialSim es) = Inr a'
            \<and> (\<forall>dy \<in> set ds. dayId dy < 7 * j + 1) \<longrightarrow>
          esWeeklyHours (snd a') i j = 0)
   \<and> (\<forall>st' dy'. dayBody org es ds' sched n st = Inr st' \<and> lookupDay ds' n = Some dy' \<longrightarrow>
          weeklyHours st' i =
            (if n mod 7 = 0 then 0 else weeklyHours st i)
              + (if isClosed dy' then 0 else hoursOn es (sched n) i))"
proof (intro conjI allI impI)
  show "getWeekIndex d = j \<longleftrightarrow> 7 * j + 1 \<le> d \<and> d \<le> 7 * j + 7"
    by (rule getWeekIndex_block)
  show "esWeeklyHours (snd a') i w =
            esWeeklyHours (snd a) i w
              + (if \<not> isClosed dy \<and> w = getWeekIndex (dayId dy)
                 then hoursActive (schedule (dayId dy)) [dayStart dy..dayEnd dy - 1] i else 0)"
    if "scoreDay org es schedule dy a = Inr a'" for a'
    using that by (rule scoreDay_hours)
  show "esWeeklyHours (snd a') i j = 0"
    if "foldE (scoreDay org es schedule) ds (0, initialSim es) = Inr a'
            \<and> (\<forall>dy \<in> set ds. dayId dy < 7 * j + 1)" for a'
  proof (rule run_block_start)
    show "foldE (scoreDay org es schedule) ds (0, initialSim es) = Inr a'" using that by simp
    show "dayId dy < 7 * j + 1" if "dy \<in> set ds" for dy using \<open>_ \<and> _\<close> that by simp
    show "esWeeklyHours (snd (0, initialSim es)) i j = 0" by (simp add: initialSim_def)
  qed
  show "weeklyHours st' i =
            (if n mod 7 = 0 then 0 else weeklyHours st i)
              + (if isClosed dy' then 0 else hoursOn es (sched n) i)"
    if "dayBody org es ds' sched n st = Inr st' \<and> lookupDay ds' n = Some dy'" for st' dy'
    using that weeklyHours_dayBody [of org es ds' sched n st st' dy' i] by simp
qed

text \<open>
  The claim as stated fails on \<^verbatim>\<open>rep_validator.js\<close>: the hour worked on day 7 is still
  on the counter when day 8 is processed, so the hour of day 8 is billed at the overtime
  rate 5 (a counter of 1 becomes 2) and the payroll of the two days is 15, whereas the
  first hour of a block that starts on day 8 would be billed 10.
\<close>

theorem weekly_blocks_counterexample:
  "map_sum id (\<lambda>r. totalPayroll (fst r))
     (validateAndScore orgA [empW] daysW scheduleW (initialState [empW])) = Inr 15
   \<and> map_sum id (\<lambda>st. weeklyHours st 1)
       (foldE (dayBody orgA [empW] daysW scheduleW) [1, 2, 3, 4, 5, 6, 7] (initialState [empW]))
       = Inr 1
   \<and> map_sum id (\<lambda>st. (weeklyHours st 1, totalPayroll st))
       (dayBody orgA [empW] daysW scheduleW 8
          ((initialState [empW])\<lparr>weeklyHours := (\<lambda>_. 1)\<rparr>)) = Inr (2, 5)
   \<and> specHourBill orgA empW 0 = 10"
  by (simp add: scenario_defs scenarioW_defs common_defs validator_defs specHourBill_div Let_def)

theorem weekly_blocks_witness:
  "getWeekIndex 8 = 1
   \<and> map_sum id (\<lambda>a. (esWeeklyHours (snd a) 1 0, esWeeklyHours (snd a) 1 1))
       (foldE (scoreDay orgA [empW] scheduleW) (butlast daysW) (0, initialSim [empW])) = Inr (1, 0)
   \<and> list_all (\<lambda>dy. dayId dy < 7 * 1 + 1) (butlast daysW)
   \<and> map_sum id (\<lambda>a. esWeeklyHours (snd a) 1 1)
       (scoreDay orgA [empW] scheduleW (openDayW 8) (0, initialSim [empW])) = Inr 1
   \<and> lookupDay daysW 7 = Some (openDayW 7)
   \<and> map_sum id (\<lambda>st. weeklyHours st 1)
       (dayBody orgA [empW] daysW scheduleW 7
          ((initialState [empW])\<lparr>weeklyHours := (\<lambda>_. 5)\<rparr>)) = Inr 1"
  using weekly_blocks [of 8 1 orgA "[empW]" scheduleW "openDayW 8" "(0, initialSim [empW])" 1 1
      "butlast daysW" daysW scheduleW 7 "(initialState [empW])\<lparr>weeklyHours := (\<lambda>_. 5)\<rparr>"]
  by (simp add: scenario_defs scenarioW_defs common_defs validator_defs scorer_defs Let_def)

section \<open>Payroll: the rule in the simulators\<close>

lemma getEmployee_set: "getEmployee es i = Some e \<Longrightarrow> e \<in> set es"
proof -
  assume "getEmployee es i = Some e"
  then have "e \<in> set (rev es)"
    unfolding getEmployee_def find_Some_iff by (metis nth_mem)
  then show ?thesis by simp
qed

lemma payrollBody_result:
  assumes "payrollBody org es d i st = Inr st'"
  obtains e where "getEmployee es i = Some e"
    "st' = st\<lparr>esWeeklyHours := (esWeeklyHours st)(i := addHour (esWeeklyHours st i) d),
              dailyPayroll := dailyPayroll st + fst (payHour org e (esWeeklyHours st i) d)\<rparr>"
  using assms by (auto simp: payrollBody_def Let_def payHour_counter split: option.splits)

lemma payrollBody_pay:
  assumes "payrollBody org es d i st = Inr st'" and "list_all (exactRate org) es"
  shows "dailyPayroll st' = dailyPayroll st + hourBill org es (esWeeklyHours st) d i"
proof -
  from assms(1) obtain e where e: "getEmployee es i = Some e"
    and st': "st' = st\<lparr>esWeeklyHours := (esWeeklyHours st)(i := addHour (esWeeklyHours st i) d),
              dailyPayroll := dailyPayroll st + fst (payHour org e (esWeeklyHours st i) d)\<rparr>"
    by (rule payrollBody_result)
  have "exactRate org e"
    using getEmployee_set [OF e] assms(2) by (simp add: list_all_iff)
  then show ?thesis by (simp add: st' hourBill_def e payHour_bill)
qed

lemma payrollBody_other:
  assumes "payrollBody org es d i st = Inr st'" and "j \<noteq> i"
  shows "esWeeklyHours st' j = esWeeklyHours st j"
  using assms(1)
proof (rule payrollBody_result)
  fix e
  assume "st' = st\<lparr>esWeeklyHours := (esWeeklyHours st)(i := addHour (esWeeklyHours st i) d),
              dailyPayroll := dailyPayroll st + fst (payHour org e (esWeeklyHours st i) d)\<rparr>"
  with assms(2) show ?thesis by simp
qed

lemma hourBill_cong: "w j = w' j \<Longrightarrow> hourBill org es w d j = hourBill org es w' d j"
  by (simp add: hourBill_def split: option.split)

lemma payrollLoop_pay:
  assumes "foldE (payrollBody org es d) acts st = Inr st'" and "distinct acts"
    and "list_all (exactRate org) es"
  shows "dailyPayroll st' = dailyPayroll st + (\<Sum>i\<leftarrow>acts. hourBill org es (esWeeklyHours st) d i)"
  using assms(1,2)
proof (induction acts arbitrary: st)
  case Nil
  then show ?case by simp
next
  case (Cons i acts)
  from foldE_Cons_Inr [OF Cons.prems(1)] obtain st1 where
    st1: "payrollBody org es d i st = Inr st1" "foldE (payrollBody org es d) acts st1 = Inr st'"
    by blast
  have ih: "dailyPayroll st' =
              dailyPayroll st1 + (\<Sum>j\<leftarrow>acts. hourBill org es (esWeeklyHours st1) d j)"
    using Cons.IH [OF st1(2)] Cons.prems(2) by simp
  have "map (hourBill org es (esWeeklyHours st1) d) acts
          = map (hourBill org es (esWeeklyHours st) d) acts"
  proof (rule map_cong [OF refl])
    fix j assume "j \<in> set acts"
    with Cons.prems(2) have "j \<noteq> i" by auto
    from payrollBody_other [OF st1(1) this]
    show "hourBill org es (esWeeklyHours st1) d j = hourBill org es (esWeeklyHours st) d j"
      by (rule hourBill_cong)
  qed
  with ih payrollBody_pay [OF st1(1) assms(3)] show ?case by simp
qed

lemma hourStep_payroll:
  assumes "hourStep org es dy shifts h st = Inr st'" and "list_all (exactRate org) es"
  shows "dailyPayroll st' =
           dailyPayroll st
             + (\<Sum>i\<leftarrow>firstOccurrences (map employeeId (filter (activeAt h) shifts)).
                  hourBill org es (esWeeklyHours st) (dayId dy) i)"
proof -
  from assms(1) obtain st2 st3 where
    c: "foldE (capacityBody es (filter (activeAt h) shifts)) (requiredSkills dy) (promote st) = Inr st2"
    and p: "foldE (payrollBody org es (dayId dy))
       (firstOccurrences (map employeeId (filter (activeAt h) shifts))) st2 = Inr st3"
    and t: "trainingStep es (filter (activeAt h) shifts) st3 = Inr st'"
    by (rule hourStep_parts)
  have w2: "esWeeklyHours st2 = esWeeklyHours st" and p2: "dailyPayroll st2 = dailyPayroll st"
    using capacityLoop_frame(2,5) [OF c] by (simp_all add: promote_def)
  have "dailyPayroll st' = dailyPayroll st3" using trainingStep_frame(3) [OF t] .
  also have "\<dots> = dailyPayroll st2
      + (\<Sum>i\<leftarrow>firstOccurrences (map employeeId (filter (activeAt h) shifts)).
           hourBill org es (esWeeklyHours st2) (dayId dy) i)"
    using p distinct_firstOccurrences assms(2) by (rule payrollLoop_pay)
  finally show ?thesis by (simp only: w2 p2)
qed

lemma overtimeRate_orgR: "overtimeRate orgR empR = 900801037785569"
proof -
  have b57: "bits 90080103778556892 = 57" by (simp add: bits.simps)
  have b50: "bits 900801037785568 = 50" by (simp add: bits.simps)
  have "roundDouble (of_int 90080103778556892)
          = of_int (roundHalfEven (of_int 90080103778556892 / of_int (2 ^ nat 4)) * 2 ^ nat 4)"
    by (rule roundDouble_big) (simp_all add: b57)
  also have "roundHalfEven (of_int 90080103778556892 / of_int (2 ^ nat 4)) = 5630006486159806"
    by (subst roundHalfEven_div) simp_all
  finally have product: "roundDouble (rat_of_int 90080103778556892) = rat_of_int 90080103778556896"
    by simp
  have "roundDouble (of_int 90080103778556896 / of_int 100)
          = of_int (roundHalfEven (of_int (90080103778556896 * 2 ^ nat 3) / of_int 100)) / 2 ^ nat 3"
    by (rule roundDouble_small) (simp_all add: b50)
  also have "roundHalfEven (of_int (90080103778556896 * 2 ^ nat 3) / of_int 100) = 7206408302284552"
    by (subst roundHalfEven_div) simp_all
  finally have quotient: "roundDouble (rat_of_int 90080103778556896 / 100) = 900801037785569"
    by simp
  have "salaryPerHour empR * overtimeMod orgR = 90080103778556892"
    by (simp add: empR_def orgR_def)
  then have "overtimeRate orgR empR
               = \<lfloor>roundDouble (roundDouble (rat_of_int 90080103778556892) / 100)\<rfloor>"
    by (simp only: overtimeRate_def)
  also have "\<dots> = \<lfloor>roundDouble (rat_of_int 90080103778556896 / 100)\<rfloor>"
    by (simp only: product)
  also have "\<dots> = 900801037785569" by (simp only: quotient floor_numeral)
  finally show ?thesis .
qed




section \<open>Training: proofs\<close>

lemma getEmployee_empId: "getEmployee es i = Some e \<Longrightarrow> empId e = i"
  by (auto simp: getEmployee_def find_Some_iff)

lemma fold_max_Max: "fold max rates (0::int) = Max (insert 0 (set rates))"
  using Max.set_eq_fold [of 0 rates] by simp

lemma teacherBonus_fold:
  "(if fold max rates 0 > 0 then fold max rates 0 else 1) = teacherBonus rates"
proof (cases "rates = []")
  case True
  then show ?thesis by (simp add: teacherBonus_def)
next
  case False
  then have "Max (insert 0 (set rates)) = max 0 (Max (set rates))" by simp
  then show ?thesis using False by (auto simp: teacherBonus_def fold_max_Max)
qed

lemma multiplier_tbVal: "multiplier tb k = (if tbVal tb k > 0 then tbVal tb k else 1)"
  by (simp add: multiplier_def tbVal_def split: option.split)

lemma teacherBody_val:
  "teacherBody es known s tb = Inr tb' \<Longrightarrow>
     tbVal tb' k = (if shiftSkill s = k \<and> k \<in> known (employeeId s)
                    then max (tbVal tb k) (teachingRateOf es (employeeId s)) else tbVal tb k)"
  by (auto simp: teacherBody_def tbVal_def teachingRateOf_def Let_def
      split: option.splits if_splits)

lemma teacherLoop_val:
  "foldE (teacherBody es known) xs tb = Inr tb' \<Longrightarrow>
     tbVal tb' k =
       fold max (teacherRates es (filter (\<lambda>s. k \<in> known (employeeId s))
                                     (filter (\<lambda>s. shiftSkill s = k) xs))) (tbVal tb k)"
proof (induction xs arbitrary: tb)
  case Nil
  then show ?case by (simp add: teacherRates_def)
next
  case (Cons s xs)
  from foldE_Cons_Inr [OF Cons.prems] obtain tb1 where
    tb1: "teacherBody es known s tb = Inr tb1" "foldE (teacherBody es known) xs tb1 = Inr tb'"
    by blast
  show ?case
    using Cons.IH [OF tb1(2)] teacherBody_val [OF tb1(1), of k]
    by (auto simp: teacherRates_def max.commute)
qed

lemma learnerBody_points:
  "learnerBody es tb x st = Inr st' \<Longrightarrow>
     trainingPoints st' i k =
       trainingPoints st i k
         + (if employeeId x = i \<and> shiftSkill x = k \<and> k \<notin> knownSkills st i
               \<and> \<not> inheritedName k
            then learningRateOf es i * multiplier tb k else 0)"
  by (auto simp: learnerBody_def Let_def learningRateOf_def dest: getEmployee_empId
      split: option.splits if_splits)

lemma learnerLoop_points:
  "foldE (learnerBody es tb) xs st = Inr st' \<Longrightarrow>
     trainingPoints st' i k =
       trainingPoints st i k
         + (if k \<notin> knownSkills st i \<and> \<not> inheritedName k
            then int (length (filter (\<lambda>s. employeeId s = i \<and> shiftSkill s = k) xs))
                   * (learningRateOf es i * multiplier tb k)
            else 0)"
proof (induction xs arbitrary: st)
  case Nil
  then show ?case by simp
next
  case (Cons x xs)
  from foldE_Cons_Inr [OF Cons.prems] obtain st1 where
    st1: "learnerBody es tb x st = Inr st1" "foldE (learnerBody es tb) xs st1 = Inr st'"
    by blast
  have k: "knownSkills st1 = knownSkills st" using learnerBody_frame [OF st1(1)] by simp
  show ?case
    using Cons.IH [OF st1(2)] learnerBody_points [OF st1(1), of i k]
    by (auto simp: k algebra_simps)
qed

lemma trainingStep_points:
  assumes "trainingStep es act st = Inr st'"
  shows "trainingPoints st' i k =
       trainingPoints st i k
         + (if inheritedName k then 0
            else int (length (filter (\<lambda>s. employeeId s = i)
                        (notKnowing st k (filter (\<lambda>s. shiftSkill s = k) act))))
                 * (learningRateOf es i
                      * teacherBonus (teacherRates es
                          (knowing st k (filter (\<lambda>s. shiftSkill s = k) act)))))"
proof -
  from assms obtain tb where
    tb: "foldE (teacherBody es (knownSkills st)) act Map.empty = Inr tb"
    and l: "foldE (learnerBody es tb)
          (filter (\<lambda>s. shiftSkill s \<notin> knownSkills st (employeeId s)) act) st = Inr st'"
    by (auto simp: trainingStep_def split: sum.splits)
  have val: "tbVal tb k = fold max (teacherRates es (knowing st k (filter (\<lambda>s. shiftSkill s = k) act))) 0"
    using teacherLoop_val [OF tb, of k] by (simp add: tbVal_def knowing_def)
  have mult: "multiplier tb k
      = teacherBonus (teacherRates es (knowing st k (filter (\<lambda>s. shiftSkill s = k) act)))"
    unfolding multiplier_tbVal val by (rule teacherBonus_fold)
  define n where "n = length (filter (\<lambda>s. employeeId s = i \<and> shiftSkill s = k)
               (filter (\<lambda>s. shiftSkill s \<notin> knownSkills st (employeeId s)) act))"
  define n' where "n' = length (filter (\<lambda>s. employeeId s = i)
                       (notKnowing st k (filter (\<lambda>s. shiftSkill s = k) act)))"
  have eq: "filter (\<lambda>s. employeeId s = i \<and> shiftSkill s = k)
              (filter (\<lambda>s. shiftSkill s \<notin> knownSkills st (employeeId s)) act)
            = filter (\<lambda>s. employeeId s = i)
                (notKnowing st k (filter (\<lambda>s. shiftSkill s = k) act))"
    by (auto simp: notKnowing_def intro: filter_cong)
  have nn: "n = n'" unfolding n_def n'_def eq ..
  have zero: "n' = 0" if "k \<in> knownSkills st i"
    using that by (auto simp: n'_def notKnowing_def filter_empty_conv)
  have "trainingPoints st' i k =
       trainingPoints st i k
         + (if k \<notin> knownSkills st i \<and> \<not> inheritedName k
            then int n * (learningRateOf es i * multiplier tb k) else 0)"
    using learnerLoop_points [OF l, of i k] by (simp only: n_def)
  then have "trainingPoints st' i k =
       trainingPoints st i k
         + (if inheritedName k then 0 else int n' * (learningRateOf es i * multiplier tb k))"
    using zero nn by (cases "k \<in> knownSkills st i") simp_all
  then show ?thesis by (simp only: n'_def mult)
qed

lemma hourStep_points:
  assumes "hourStep org es dy shifts h st = Inr st'"
  shows "trainingPoints st' i k =
       trainingPoints st i k
         + (if inheritedName k then 0
            else int (length (learnerShifts (promote st) shifts h i k))
                 * (learningRateOf es i
                      * teacherBonus (teacherRates es
                          (knowing (promote st) k (activeOn shifts h k)))))"
proof -
  from assms obtain st2 st3 where
    c: "foldE (capacityBody es (filter (activeAt h) shifts)) (requiredSkills dy) (promote st) = Inr st2"
    and p: "foldE (payrollBody org es (dayId dy))
       (firstOccurrences (map employeeId (filter (activeAt h) shifts))) st2 = Inr st3"
    and t: "trainingStep es (filter (activeAt h) shifts) st3 = Inr st'"
    by (rule hourStep_parts)
  have k3: "knownSkills st3 = knownSkills (promote st)"
    using capacityLoop_frame(1) [OF c] payrollLoop_frame(1) [OF p] by simp
  have p3: "trainingPoints st3 = trainingPoints st"
    using capacityLoop_frame(3) [OF c] payrollLoop_frame(2) [OF p] by (simp add: promote_def)
  have kn: "knowing st3 = knowing (promote st)" "notKnowing st3 = notKnowing (promote st)"
    by (simp_all add: knowing_def notKnowing_def k3 fun_eq_iff)
  show ?thesis
    using trainingStep_points [OF t, of i k]
    by (simp add: kn p3 learnerShifts_def activeOn_def)
qed

text \<open>The validator: the teaching rate that \<open>calculateCapacity\<close> records for an hour and a skill.\<close>

lemma maxRateLoop_known:
  "foldE (maxRateBody es st k h) xs m0 = Inr m \<Longrightarrow> s \<in> set xs \<Longrightarrow>
     shiftSkill s = k \<Longrightarrow> shiftStart s \<le> h \<Longrightarrow> h < shiftEnd s \<Longrightarrow>
     isTrained st (employeeId s) k \<Longrightarrow> getEmployee es (employeeId s) \<noteq> None"
proof (induction xs arbitrary: m0)
  case Nil
  then show ?case by simp
next
  case (Cons x xs)
  from foldE_Cons_Inr [OF Cons.prems(1)] obtain m1 where
    m1: "maxRateBody es st k h x m0 = Inr m1" "foldE (maxRateBody es st k h) xs m1 = Inr m"
    by blast
  show ?case
  proof (cases "s = x")
    case True
    with m1(1) Cons.prems show ?thesis
      by (auto simp: maxRateBody_def split: option.splits)
  next
    case False
    with Cons.prems have "s \<in> set xs" by simp
    from Cons.IH [OF m1(2) this] Cons.prems show ?thesis by simp
  qed
qed

lemma maxRateLoop_value:
  "foldE (maxRateBody es st k h) xs m0 = Inr m \<Longrightarrow>
     m = fold max (teacherRates es (trainedOn st k
           (filter (\<lambda>s. shiftSkill s = k \<and> shiftStart s \<le> h \<and> h < shiftEnd s) xs))) m0"
proof (induction xs arbitrary: m0)
  case Nil
  then show ?case by (simp add: teacherRates_def trainedOn_def)
next
  case (Cons x xs)
  from foldE_Cons_Inr [OF Cons.prems(1)] obtain m1 where
    m1: "maxRateBody es st k h x m0 = Inr m1" "foldE (maxRateBody es st k h) xs m1 = Inr m"
    by blast
  from m1(1) have "m1 = (if shiftSkill x = k \<and> shiftStart x \<le> h \<and> h < shiftEnd x
                           \<and> isTrained st (employeeId x) k
                         then max m0 (teachingRateOf es (employeeId x)) else m0)"
    by (auto simp: maxRateBody_def teachingRateOf_def split: option.splits if_splits)
  with Cons.IH [OF m1(2)] show ?case
    by (auto simp: teacherRates_def trainedOn_def max.commute)
qed

lemma maxRateLoop_staffed:
  assumes "foldE (maxRateBody es st k h) xs 0 = Inr m"
  shows "m = fold max (teacherRates es (trainedOn st k (staffed es xs h k))) 0"
proof -
  have "trainedOn st k (filter (\<lambda>s. shiftSkill s = k \<and> shiftStart s \<le> h \<and> h < shiftEnd s) xs)
        = trainedOn st k (staffed es xs h k)"
    unfolding trainedOn_def staffed_def filter_filter
    by (rule filter_cong) (auto dest: maxRateLoop_known [OF assms])
  with maxRateLoop_value [OF assms] show ?thesis by simp
qed

lemma hourCell_teachers:
  assumes "hourCell es st shifts cm k h a = Inr a'"
  shows "snd a' h' k' =
           (if h' = h \<and> k' = k \<and> fst (cm h k) > 0 then recordedRate es st shifts h k
            else snd a h' k')"
proof (cases "fst (cm h k) > 0")
  case True
  with assms obtain m where m: "foldE (maxRateBody es st k h) shifts 0 = Inr m"
    and a': "a' = (fst a + hourlyCoverage (cm h k), (snd a)(h := (snd a h)(k := m)))"
    by (auto simp: hourCell_def split: sum.splits)
  from maxRateLoop_staffed [OF m] True show ?thesis by (simp add: a' recordedRate_def)
next
  case False
  with assms show ?thesis by (auto simp: hourCell_def)
qed

lemma hourCells_teachers:
  "foldE (hourCell es st shifts cm k) hs a = Inr a' \<Longrightarrow>
     snd a' h' k' =
       (if h' \<in> set hs \<and> k' = k \<and> fst (cm h' k) > 0 then recordedRate es st shifts h' k
        else snd a h' k')"
proof (induction hs arbitrary: a)
  case Nil
  then show ?case by simp
next
  case (Cons h hs)
  from foldE_Cons_Inr [OF Cons.prems] obtain b where
    b: "hourCell es st shifts cm k h a = Inr b" "foldE (hourCell es st shifts cm k) hs b = Inr a'"
    by blast
  show ?case
    using Cons.IH [OF b(2)] hourCell_teachers [OF b(1), of h' k'] by auto
qed

lemma achievedLoop_teachers:
  "foldE (\<lambda>k. foldE (hourCell es st shifts cm k) hs) ks a = Inr a' \<Longrightarrow>
     snd a' h' k' =
       (if h' \<in> set hs \<and> k' \<in> set ks \<and> fst (cm h' k') > 0 then recordedRate es st shifts h' k'
        else snd a h' k')"
proof (induction ks arbitrary: a)
  case Nil
  then show ?case by simp
next
  case (Cons k ks)
  from foldE_Cons_Inr [OF Cons.prems] obtain b where
    b: "foldE (hourCell es st shifts cm k) hs a = Inr b"
      "foldE (\<lambda>k. foldE (hourCell es st shifts cm k) hs) ks b = Inr a'"
    by blast
  show ?case
    using Cons.IH [OF b(2)] hourCells_teachers [OF b(1), of h' k'] by auto
qed

lemma calculateCapacity_teachers:
  assumes "calculateCapacity org es dy shifts st = Inr m"
  shows "hourlyTeachers m h k =
           (if k \<in> set (requiredSkills dy) \<and> dayStart dy \<le> h \<and> h < dayEnd dy
               \<and> \<not> inheritedName k
            then recordedRate es st shifts h k else 0)"
proof -
  define acc where "acc = shiftLoop org es dy shifts st"
  from assms obtain a where
    a: "achievedLoop es (accState acc) dy shifts (coverageMap acc) = Inr a"
    and m: "hourlyTeachers m = snd a"
    by (auto simp: calculateCapacity_def Let_def acc_def split: sum.splits)
  have tr: "isTrained (accState acc) = isTrained st"
    unfolding acc_def shiftLoop_def
    by (rule isTrained_cong) (simp add: skillPoints_fold_shiftBody)
  have rr: "recordedRate es (accState acc) shifts h k = recordedRate es st shifts h k"
    by (simp add: recordedRate_def trainedOn_def tr)
  have cm: "fst (coverageMap acc h k)
              = (if inheritedName k then 0 else length (trainedOn st k (staffed es shifts h k)))"
    by (simp add: acc_def coverageMap_shiftLoop)
  have zero: "recordedRate es st shifts h k = 0" if "trainedOn st k (staffed es shifts h k) = []"
    using that by (simp add: recordedRate_def teacherRates_def)
  from achievedLoop_teachers [OF a [unfolded achievedLoop_def], of h k]
  show ?thesis using zero by (auto simp: m rr cm)
qed

lemma trainPair_points:
  assumes "trainPair es shifts ht p st = Inr st'"
  shows "skillPoints st' i k =
           skillPoints st i k
             + (if p = (i, k) \<and> \<not> isTrained st i k \<and> \<not> inheritedName k
                then dayGain es shifts ht i k else 0)"
proof (cases "p = (i, k) \<and> \<not> isTrained st i k \<and> \<not> inheritedName k")
  case False
  with assms show ?thesis
    by (cases p) (auto simp: trainPair_def Let_def split: if_splits option.splits)
next
  case True
  show ?thesis
  proof (cases "empSkillHours shifts i k = []")
    case True
    with assms \<open>p = (i, k) \<and> \<not> isTrained st i k \<and> \<not> inheritedName k\<close> show ?thesis
      by (simp add: trainPair_def Let_def dayGain_def)
  next
    case False
    with assms True obtain e where e: "getEmployee es i = Some e"
      by (auto simp: trainPair_def Let_def split: option.splits)
    have "hourGain e ht k = (\<lambda>h. learningRateOf es i * (if ht h k > 0 then ht h k else 1))"
      by (auto simp: hourGain_def Let_def learningRateOf_def e fun_eq_iff)
    with assms True False e show ?thesis
      by (auto simp: trainPair_def Let_def dayGain_def)
  qed
qed

lemma trainLoop_points:
  assumes "foldE (trainPair es shifts ht) ps st = Inr st'" and "distinct ps"
  shows "skillPoints st' i k =
           skillPoints st i k
             + (if (i, k) \<in> set ps \<and> \<not> isTrained st i k \<and> \<not> inheritedName k
                then dayGain es shifts ht i k else 0)"
  using assms
proof (induction ps arbitrary: st)
  case Nil
  then show ?case by simp
next
  case (Cons p ps)
  from foldE_Cons_Inr [OF Cons.prems(1)] obtain st1 where
    st1: "trainPair es shifts ht p st = Inr st1" "foldE (trainPair es shifts ht) ps st1 = Inr st'"
    by blast
  have ih: "skillPoints st' i k =
           skillPoints st1 i k
             + (if (i, k) \<in> set ps \<and> \<not> isTrained st1 i k \<and> \<not> inheritedName k
                then dayGain es shifts ht i k else 0)"
    using Cons.IH [OF st1(2)] Cons.prems(2) by simp
  show ?case
  proof (cases "p = (i, k)")
    case True
    then have "(i, k) \<notin> set ps" using Cons.prems(2) by simp
    with ih trainPair_points [OF st1(1), of i k] True show ?thesis by simp
  next
    case False
    then have "skillPoints st1 i k = skillPoints st i k"
      using trainPair_points [OF st1(1), of i k] by simp
    with ih False show ?thesis by (simp add: isTrained_def)
  qed
qed

lemma updateTraining_points:
  assumes "updateTraining es shifts ht st = Inr st'"
  shows "skillPoints st' i k =
           skillPoints st i k
             + (if isTrained st i k \<or> inheritedName k then 0 else dayGain es shifts ht i k)"
proof -
  have zero: "dayGain es shifts ht i k = 0"
    if "(i, k) \<notin> set (map (\<lambda>s. (employeeId s, shiftSkill s)) shifts)"
  proof -
    have "filter (\<lambda>s. employeeId s = i \<and> shiftSkill s = k) shifts = []"
      using that by (auto simp: filter_empty_conv)
    then show ?thesis by (simp add: dayGain_def empSkillHours_def)
  qed
  from trainLoop_points [OF updateTraining_Inr [OF assms], of i k] zero
  show ?thesis by auto
qed

lemma validator_day_points:
  assumes "calculateCapacity org es dy shifts st = Inr m"
    and "updateTraining es shifts (hourlyTeachers m) (metricsState m) = Inr st'"
    and plain: "\<not> inheritedName k"
  shows "skillPoints st' i k =
           skillPoints st i k
             + (if isTrained st i k then 0
                else (\<Sum>h\<leftarrow>empSkillHours shifts i k.
                        learningRateOf es i * validatorBonus es st dy shifts k h))"
proof -
  have sp: "skillPoints (metricsState m) = skillPoints st"
    using assms(1)
    by (auto simp: calculateCapacity_def Let_def shiftLoop_def skillPoints_fold_shiftBody
        split: sum.splits)
  have bonus: "(if hourlyTeachers m h k > 0 then hourlyTeachers m h k else 1)
                 = validatorBonus es st dy shifts k h" for h
  proof (cases "k \<in> set (requiredSkills dy) \<and> dayStart dy \<le> h \<and> h < dayEnd dy")
    case True
    then have "hourlyTeachers m h k
        = fold max (teacherRates es (trainedOn st k (staffed es shifts h k))) 0"
      using plain by (simp add: calculateCapacity_teachers [OF assms(1)] recordedRate_def)
    then have "(if hourlyTeachers m h k > 0 then hourlyTeachers m h k else 1)
        = teacherBonus (teacherRates es (trainedOn st k (staffed es shifts h k)))"
      by (simp only: teacherBonus_fold)
    then show ?thesis using True by (simp add: validatorBonus_def)
  next
    case False
    then have "hourlyTeachers m h k = 0"
      by (auto simp: calculateCapacity_teachers [OF assms(1)])
    moreover have "validatorBonus es st dy shifts k h = teacherBonus []"
      unfolding validatorBonus_def using False by (simp only: if_False)
    ultimately show ?thesis by (simp add: teacherBonus_def)
  qed
  have "dayGain es shifts (hourlyTeachers m) i k
          = (\<Sum>h\<leftarrow>empSkillHours shifts i k.
               learningRateOf es i * validatorBonus es st dy shifts k h)"
    unfolding dayGain_def bonus ..
  with updateTraining_points [OF assms(2), of i k] plain show ?thesis
    by (simp add: sp isTrained_def)
qed

lemmas scenarioT_defs = empT_def empU_def shiftsT_def

lemmas training_defs = learningRateOf_def teachingRateOf_def teacherRates_def teacherBonus_def
  specTeacherBonus_def learnerShifts_def validatorBonus_def staffed_def activeOn_def
  trainedOn_def untrainedOn_def knowing_def notKnowing_def




section \<open>Promotions: proofs\<close>

lemma learnerBody_staged:
  "learnerBody es tb x st = Inr st' \<Longrightarrow>
     newSkillsLearned st' j =
       (if employeeId x = j \<and> shiftSkill x \<notin> knownSkills st j
           \<and> \<not> inheritedName (shiftSkill x)
           \<and> trainingPoints st' j (shiftSkill x) \<ge> 1000
        then Some (shiftSkill x) else newSkillsLearned st j)"
  by (auto simp: learnerBody_def Let_def dest: getEmployee_empId
      split: option.splits if_splits)

lemma learnerLoop_other:
  assumes "foldE (learnerBody es tb) xs st = Inr st'"
    and "\<And>x. x \<in> set xs \<Longrightarrow> employeeId x \<noteq> j"
  shows "newSkillsLearned st' j = newSkillsLearned st j"
  using assms
proof (induction xs arbitrary: st)
  case Nil
  then show ?case by simp
next
  case (Cons x xs)
  from foldE_Cons_Inr [OF Cons.prems(1)] obtain st1 where
    st1: "learnerBody es tb x st = Inr st1" "foldE (learnerBody es tb) xs st1 = Inr st'"
    by blast
  have "newSkillsLearned st1 j = newSkillsLearned st j"
    using learnerBody_staged [OF st1(1), of j] Cons.prems(2) [of x] by simp
  moreover have "newSkillsLearned st' j = newSkillsLearned st1 j"
    using Cons.IH [OF st1(2)] Cons.prems(2) by simp
  ultimately show ?case by simp
qed

lemma learnerLoop_points_other:
  assumes "foldE (learnerBody es tb) xs st = Inr st'"
    and "\<And>x. x \<in> set xs \<Longrightarrow> employeeId x \<noteq> j"
  shows "trainingPoints st' j k = trainingPoints st j k"
proof -
  have "filter (\<lambda>s. employeeId s = j \<and> shiftSkill s = k) xs = []"
    using assms(2) by (auto simp: filter_empty_conv)
  with learnerLoop_points [OF assms(1), of j k] show ?thesis by simp
qed

lemma learnerLoop_single:
  assumes "foldE (learnerBody es tb) xs st = Inr st'"
    and "filter (\<lambda>x. employeeId x = j) xs = [s]"
    and "shiftSkill s \<notin> knownSkills st j"
    and "\<not> inheritedName (shiftSkill s)"
  shows "newSkillsLearned st' j =
           (if trainingPoints st' j (shiftSkill s) \<ge> 1000 then Some (shiftSkill s)
            else newSkillsLearned st j)"
  using assms
proof (induction xs arbitrary: st)
  case Nil
  then show ?case by simp
next
  case (Cons x xs)
  from foldE_Cons_Inr [OF Cons.prems(1)] obtain st1 where
    st1: "learnerBody es tb x st = Inr st1" "foldE (learnerBody es tb) xs st1 = Inr st'"
    by blast
  have k1: "knownSkills st1 = knownSkills st" using learnerBody_frame [OF st1(1)] by simp
  show ?case
  proof (cases "employeeId x = j")
    case True
    with Cons.prems(2) have x: "x = s" and rest: "filter (\<lambda>x. employeeId x = j) xs = []"
      by simp_all
    from rest have other: "\<And>y. y \<in> set xs \<Longrightarrow> employeeId y \<noteq> j"
      by (auto simp: filter_empty_conv)
    have "newSkillsLearned st' j = newSkillsLearned st1 j"
      using st1(2) other by (rule learnerLoop_other)
    moreover have "trainingPoints st' j (shiftSkill s) = trainingPoints st1 j (shiftSkill s)"
      using st1(2) other by (rule learnerLoop_points_other)
    moreover have "newSkillsLearned st1 j =
        (if trainingPoints st1 j (shiftSkill s) \<ge> 1000 then Some (shiftSkill s)
         else newSkillsLearned st j)"
      using learnerBody_staged [OF st1(1), of j] True x Cons.prems(3,4) by simp
    ultimately show ?thesis by simp
  next
    case False
    with Cons.prems(2) have rest: "filter (\<lambda>x. employeeId x = j) xs = [s]" by simp
    have "newSkillsLearned st1 j = newSkillsLearned st j"
      using learnerBody_staged [OF st1(1), of j] False by simp
    with Cons.IH [OF st1(2) rest] Cons.prems(3,4) show ?thesis by (simp add: k1)
  qed
qed

lemma trainingStep_staged:
  assumes "trainingStep es act st = Inr st'"
    and "filter (\<lambda>x. employeeId x = j) act = [s]"
    and "shiftSkill s \<notin> knownSkills st j"
    and "\<not> inheritedName (shiftSkill s)"
  shows "newSkillsLearned st' j =
           (if trainingPoints st' j (shiftSkill s) \<ge> 1000 then Some (shiftSkill s)
            else newSkillsLearned st j)"
proof -
  from assms(1) obtain tb where
    l: "foldE (learnerBody es tb)
          (filter (\<lambda>s. shiftSkill s \<notin> knownSkills st (employeeId s)) act) st = Inr st'"
    by (auto simp: trainingStep_def split: sum.splits)
  have sj: "employeeId s = j"
    using assms(2) filter_eq_ConsD [of "\<lambda>x. employeeId x = j" act s "[]"] by auto
  have "filter (\<lambda>x. employeeId x = j)
          (filter (\<lambda>s. shiftSkill s \<notin> knownSkills st (employeeId s)) act)
        = filter (\<lambda>s. shiftSkill s \<notin> knownSkills st (employeeId s))
            (filter (\<lambda>x. employeeId x = j) act)"
    by (simp add: conj_commute)
  also have "\<dots> = [s]" using assms(3) sj by (simp add: assms(2))
  finally have one: "filter (\<lambda>x. employeeId x = j)
          (filter (\<lambda>s. shiftSkill s \<notin> knownSkills st (employeeId s)) act) = [s]" .
  from l one assms(3,4) show ?thesis by (rule learnerLoop_single)
qed

lemma hourStep_known:
  assumes "hourStep org es dy shifts h st = Inr st'"
  shows "knownSkills st' = knownSkills (promote st)"
proof -
  from assms obtain st2 st3 where
    c: "foldE (capacityBody es (filter (activeAt h) shifts)) (requiredSkills dy) (promote st) = Inr st2"
    and p: "foldE (payrollBody org es (dayId dy))
       (firstOccurrences (map employeeId (filter (activeAt h) shifts))) st2 = Inr st3"
    and t: "trainingStep es (filter (activeAt h) shifts) st3 = Inr st'"
    by (rule hourStep_parts)
  show ?thesis
    using capacityLoop_frame(1) [OF c] payrollLoop_frame(1) [OF p] trainingStep_frame(1) [OF t]
    by simp
qed

lemma hourStep_staged:
  assumes "hourStep org es dy shifts h st = Inr st'"
    and "filter (\<lambda>x. employeeId x = j) (filter (activeAt h) shifts) = [s]"
    and "shiftSkill s \<notin> knownSkills (promote st) j"
    and "\<not> inheritedName (shiftSkill s)"
  shows "newSkillsLearned st' j =
           (if trainingPoints st' j (shiftSkill s) \<ge> 1000 then Some (shiftSkill s) else None)"
proof -
  from assms(1) obtain st2 st3 where
    c: "foldE (capacityBody es (filter (activeAt h) shifts)) (requiredSkills dy) (promote st) = Inr st2"
    and p: "foldE (payrollBody org es (dayId dy))
       (firstOccurrences (map employeeId (filter (activeAt h) shifts))) st2 = Inr st3"
    and t: "trainingStep es (filter (activeAt h) shifts) st3 = Inr st'"
    by (rule hourStep_parts)
  have k3: "knownSkills st3 = knownSkills (promote st)"
    using capacityLoop_frame(1) [OF c] payrollLoop_frame(1) [OF p] by simp
  have n3: "newSkillsLearned st3 = Map.empty"
    using capacityLoop_frame(4) [OF c] payrollLoop_frame(3) [OF p] by (simp add: promote_def)
  from trainingStep_staged [OF t assms(2)] assms(3,4) show ?thesis by (simp add: k3 n3)
qed

lemma promote_known:
  "newSkillsLearned st j = Some k \<Longrightarrow> k \<in> knownSkills (promote st) j"
  by (simp add: promote_def)

lemma promote_mono: "knownSkills st j \<subseteq> knownSkills (promote st) j"
  by (auto simp: promote_def split: option.splits)

lemma capacityLoop_sum:
  "foldE (capacityBody es (filter (activeAt h) shifts)) ks st = Inr st' \<Longrightarrow>
     achievedSkillHours st' =
       achievedSkillHours st
         + (\<Sum>k\<leftarrow>ks. specCoverage (length (knowing st k (activeOn shifts h k)))
                                 (length (notKnowing st k (activeOn shifts h k))))"
proof (induction ks arbitrary: st)
  case Nil
  then show ?case by simp
next
  case (Cons k ks)
  from foldE_Cons_Inr [OF Cons.prems] obtain st1 where
    st1: "capacityBody es (filter (activeAt h) shifts) k st = Inr st1"
      "foldE (capacityBody es (filter (activeAt h) shifts)) ks st1 = Inr st'"
    by blast
  have kn: "knowing st1 = knowing st" "notKnowing st1 = notKnowing st"
    using capacityBody_frame [OF st1(1)] by (simp_all add: knowing_def notKnowing_def fun_eq_iff)
  show ?case
    using Cons.IH [OF st1(2)] capacityBody_spec [OF st1(1)] by (simp add: kn)
qed

lemma hourStep_achieved:
  assumes "hourStep org es dy shifts h st = Inr st'"
  shows "achievedSkillHours st' =
       achievedSkillHours st
         + (\<Sum>k\<leftarrow>requiredSkills dy.
              specCoverage (length (knowing (promote st) k (activeOn shifts h k)))
                           (length (notKnowing (promote st) k (activeOn shifts h k))))"
proof -
  from assms obtain st2 st3 where
    c: "foldE (capacityBody es (filter (activeAt h) shifts)) (requiredSkills dy) (promote st) = Inr st2"
    and p: "foldE (payrollBody org es (dayId dy))
       (firstOccurrences (map employeeId (filter (activeAt h) shifts))) st2 = Inr st3"
    and t: "trainingStep es (filter (activeAt h) shifts) st3 = Inr st'"
    by (rule hourStep_parts)
  show ?thesis
    using capacityLoop_sum [OF c] payrollLoop_frame(4) [OF p] trainingStep_frame(4) [OF t]
    by (simp add: promote_def)
qed

lemma hourStep_mono:
  assumes "hourStep org es dy shifts h st = Inr st'"
  shows "knownSkills st i \<subseteq> knownSkills st' i"
  using hourStep_known [OF assms] promote_mono [of st i] by simp

lemmas scenarioV_defs = empV_def shiftV_def




section \<open>Coverage: the rule in the simulators\<close>

lemma hourlyCoverage_shiftLoop:
  "hourlyCoverage (coverageMap (shiftLoop org es dy shifts st) h k)
     = (if inheritedName k then 0
        else specCoverage (length (trainedOn st k (staffed es shifts h k)))
                          (length (untrainedOn st k (staffed es shifts h k))))"
  by (simp add: coverageMap_shiftLoop hourlyCoverage_spec specCoverage_def)

lemma calculateCapacity_capacity:
  assumes "calculateCapacity org es dy shifts st = Inr m"
  shows "capacityD m =
           (if totalSkillHours dy > 0
            then (\<Sum>k\<leftarrow>requiredSkills dy. \<Sum>h\<leftarrow>[dayStart dy..dayEnd dy - 1].
                    hourlyCoverage (coverageMap (shiftLoop org es dy shifts st) h k))
                 / rat_of_int (totalSkillHours dy)
            else 0)"
proof -
  define acc where "acc = shiftLoop org es dy shifts st"
  from assms obtain a where
    a: "achievedLoop es (accState acc) dy shifts (coverageMap acc) = Inr a"
    and m: "capacityD m = (if totalSkillHours dy > 0
                           then fst a / rat_of_int (totalSkillHours dy) else 0)"
    by (auto simp: calculateCapacity_def Let_def acc_def split: sum.splits)
  have "fst a = (\<Sum>k\<leftarrow>requiredSkills dy. \<Sum>h\<leftarrow>[dayStart dy..dayEnd dy - 1].
                   hourlyCoverage (coverageMap acc h k))"
    using achievedLoop_sum [OF a [unfolded achievedLoop_def]] by simp
  then show ?thesis by (simp only: m acc_def)
qed

lemma sum_list_cong:
  assumes "\<And>x. x \<in> set xs \<Longrightarrow> f x = g x"
  shows "(\<Sum>x\<leftarrow>xs. f x) = (\<Sum>x\<leftarrow>xs. g x :: rat)"
proof -
  have "map f xs = map g xs" by (rule map_cong [OF refl]) (rule assms)
  then show ?thesis by (rule arg_cong)
qed

text \<open>
  C1, as amended. Let the required skills of the day have names that are not names of
  properties of \<^verbatim>\<open>Object.prototype\<close>. The coverage value that \<^verbatim>\<open>calculateCapacity\<close>
  (\<^verbatim>\<open>rep_validator.js\<close>) computes for a required skill and an open hour, and the amount that
  an hour of \<^verbatim>\<open>calculateScore\<close> (\<^verbatim>\<open>bah3.js\<close>) adds to \<^verbatim>\<open>achievedSkillHours\<close> for a required
  skill, are 1 if at least one shift of a trained worker is active on the skill in that
  hour, else 1 if at least two shifts of untrained workers are, else 1/2 if exactly one
  shift of an untrained worker is, else 0. The capacity that \<^verbatim>\<open>calculateCapacity\<close> returns
  is the sum of these values over the required skills and the open hours, divided by the
  number of required skill-hours; an hour of \<^verbatim>\<open>calculateScore\<close> adds the sum of these
  values over the required skills. Both programs count shifts: the counts are the numbers
  of workers where no employee has two shifts on the skill in the same hour. The value is
  one of 0, 1/2 and 1 and never exceeds 1, whatever the counts.
\<close>

theorem coverage_rule:
  "(\<forall>m. calculateCapacity org es dy shifts st = Inr m
          \<and> list_all (\<lambda>k. \<not> inheritedName k) (requiredSkills dy) \<longrightarrow>
        capacityD m =
          (if totalSkillHours dy > 0
           then (\<Sum>k\<leftarrow>requiredSkills dy. \<Sum>h\<leftarrow>[dayStart dy..dayEnd dy - 1].
                   specCoverage (length (trainedOn st k (staffed es shifts h k)))
                                (length (untrainedOn st k (staffed es shifts h k))))
                / rat_of_int (totalSkillHours dy)
           else 0))
   \<and> (\<not> inheritedName k \<longrightarrow>
        hourlyCoverage (coverageMap (shiftLoop org es dy shifts st) h k)
          = specCoverage (length (trainedOn st k (staffed es shifts h k)))
                         (length (untrainedOn st k (staffed es shifts h k))))
   \<and> (\<forall>sim'. hourStep org es dy shifts h sim = Inr sim' \<longrightarrow>
          achievedSkillHours sim' =
            achievedSkillHours sim
              + (\<Sum>k\<leftarrow>requiredSkills dy.
                   specCoverage (length (knowing (promote sim) k (activeOn shifts h k)))
                                (length (notKnowing (promote sim) k (activeOn shifts h k)))))
   \<and> (distinct (map employeeId (staffed es shifts h k)) \<longrightarrow>
          length (trainedOn st k (staffed es shifts h k))
            = card (workers (trainedOn st k (staffed es shifts h k)))
          \<and> length (untrainedOn st k (staffed es shifts h k))
            = card (workers (untrainedOn st k (staffed es shifts h k))))
   \<and> (distinct (map employeeId (activeOn shifts h k)) \<longrightarrow>
          length (knowing (promote sim) k (activeOn shifts h k))
            = card (workers (knowing (promote sim) k (activeOn shifts h k)))
          \<and> length (notKnowing (promote sim) k (activeOn shifts h k))
            = card (workers (notKnowing (promote sim) k (activeOn shifts h k))))
   \<and> specCoverage t u \<in> {0, 1 / 2, 1} \<and> specCoverage t u \<le> 1"
proof (intro conjI allI impI)
  fix m
  assume a: "calculateCapacity org es dy shifts st = Inr m
          \<and> list_all (\<lambda>k. \<not> inheritedName k) (requiredSkills dy)"
  have "(\<Sum>k\<leftarrow>requiredSkills dy. \<Sum>h\<leftarrow>[dayStart dy..dayEnd dy - 1].
           hourlyCoverage (coverageMap (shiftLoop org es dy shifts st) h k))
        = (\<Sum>k\<leftarrow>requiredSkills dy. \<Sum>h\<leftarrow>[dayStart dy..dayEnd dy - 1].
             specCoverage (length (trainedOn st k (staffed es shifts h k)))
                          (length (untrainedOn st k (staffed es shifts h k))))"
  proof (rule sum_list_cong)
    fix k assume "k \<in> set (requiredSkills dy)"
    with a have "\<not> inheritedName k" by (simp add: list_all_iff)
    then show "(\<Sum>h\<leftarrow>[dayStart dy..dayEnd dy - 1].
                  hourlyCoverage (coverageMap (shiftLoop org es dy shifts st) h k))
               = (\<Sum>h\<leftarrow>[dayStart dy..dayEnd dy - 1].
                    specCoverage (length (trainedOn st k (staffed es shifts h k)))
                                 (length (untrainedOn st k (staffed es shifts h k))))"
      by (simp add: hourlyCoverage_shiftLoop)
  qed
  with calculateCapacity_capacity [of org es dy shifts st m] a
  show "capacityD m =
          (if totalSkillHours dy > 0
           then (\<Sum>k\<leftarrow>requiredSkills dy. \<Sum>h\<leftarrow>[dayStart dy..dayEnd dy - 1].
                   specCoverage (length (trainedOn st k (staffed es shifts h k)))
                                (length (untrainedOn st k (staffed es shifts h k))))
                / rat_of_int (totalSkillHours dy)
           else 0)"
    by simp
next
  assume "\<not> inheritedName k"
  then show "hourlyCoverage (coverageMap (shiftLoop org es dy shifts st) h k)
          = specCoverage (length (trainedOn st k (staffed es shifts h k)))
                         (length (untrainedOn st k (staffed es shifts h k)))"
    by (simp add: hourlyCoverage_shiftLoop)
next
  fix sim' assume "hourStep org es dy shifts h sim = Inr sim'"
  then show "achievedSkillHours sim' =
            achievedSkillHours sim
              + (\<Sum>k\<leftarrow>requiredSkills dy.
                   specCoverage (length (knowing (promote sim) k (activeOn shifts h k)))
                                (length (notKnowing (promote sim) k (activeOn shifts h k))))"
    by (rule hourStep_achieved)
next
  assume d: "distinct (map employeeId (staffed es shifts h k))"
  show "length (trainedOn st k (staffed es shifts h k))
            = card (workers (trainedOn st k (staffed es shifts h k)))"
    unfolding trainedOn_def using d by (rule length_filter_workers)
  show "length (untrainedOn st k (staffed es shifts h k))
            = card (workers (untrainedOn st k (staffed es shifts h k)))"
    unfolding untrainedOn_def using d by (rule length_filter_workers)
next
  assume d: "distinct (map employeeId (activeOn shifts h k))"
  show "length (knowing (promote sim) k (activeOn shifts h k))
            = card (workers (knowing (promote sim) k (activeOn shifts h k)))"
    unfolding knowing_def using d by (rule length_filter_workers)
  show "length (notKnowing (promote sim) k (activeOn shifts h k))
            = card (workers (notKnowing (promote sim) k (activeOn shifts h k)))"
    unfolding notKnowing_def using d by (rule length_filter_workers)
next
  show "specCoverage t u \<in> {0, 1 / 2, 1}" by (rule specCoverage_values)
  show "specCoverage t u \<le> 1" by (rule specCoverage_le_1)
qed

text \<open>
  The claim as stated fails when a worker is booked twice on the skill in the same hour:
  one untrained worker with two shifts on \<open>Register\<close> over the day is the only worker
  present, for which the claim gives the coverage 1/2, but both programs count two
  untrained shifts and give the coverage 1 (capacity 1 for the day in the validator, 1
  achieved skill-hour for the hour in \<^verbatim>\<open>calculateScore\<close>).
\<close>

theorem coverage_rule_counterexample:
  "workers (untrainedOn (initialState [empB]) ''Register''
              (staffed [empB] shiftsTwice 8 ''Register'')) = {2}
   \<and> workers (trainedOn (initialState [empB]) ''Register''
                (staffed [empB] shiftsTwice 8 ''Register'')) = {}
   \<and> workers (notKnowing (promote (initialSim [empB])) ''Register''
                (activeOn shiftsTwice 8 ''Register'')) = {2}
   \<and> workers (knowing (promote (initialSim [empB])) ''Register''
                (activeOn shiftsTwice 8 ''Register'')) = {}
   \<and> specCoverage 0 1 = 1 / 2
   \<and> hourlyCoverage (coverageMap (shiftLoop orgA [empB] dayA shiftsTwice (initialState [empB]))
        8 ''Register'') = 1
   \<and> map_sum id capacityD
        (calculateCapacity orgA [empB] dayA shiftsTwice (initialState [empB])) = Inr 1
   \<and> map_sum id achievedSkillHours
        (hourStep orgA [empB] dayA shiftsTwice 8 (initialSim [empB])) = Inr 1"
  by (simp add: scenario_defs shiftsTwice_def common_defs validator_defs scorer_defs staffed_def
      activeOn_def untrainedOn_def trainedOn_def knowing_def notKnowing_def workers_def
      specCoverage_def Let_def)

theorem coverage_rule_witness:
  "list_all (\<lambda>k. \<not> inheritedName k) (requiredSkills dayA)
   \<and> \<not> inheritedName ''Register''
   \<and> distinct (map employeeId (staffed [empB, empC] shiftsB 8 ''Register''))
   \<and> distinct (map employeeId (activeOn shiftsB 8 ''Register''))
   \<and> card (workers (untrainedOn (initialState [empB, empC]) ''Register''
                      (staffed [empB, empC] shiftsB 8 ''Register''))) = 2
   \<and> card (workers (notKnowing (promote (initialSim [empB, empC])) ''Register''
                      (activeOn shiftsB 8 ''Register''))) = 2
   \<and> hourlyCoverage (coverageMap (shiftLoop orgA [empB, empC] dayA shiftsB
                        (initialState [empB, empC])) 8 ''Register'') = 1
   \<and> map_sum id capacityD
        (calculateCapacity orgA [empB, empC] dayA shiftsB (initialState [empB, empC])) = Inr 1
   \<and> map_sum id achievedSkillHours
        (hourStep orgA [empB, empC] dayA shiftsB 8 (initialSim [empB, empC])) = Inr 1"
  using coverage_rule [where org = orgA and es = "[empB, empC]" and dy = dayA and shifts = shiftsB
      and st = "initialState [empB, empC]" and h = 8 and k = "''Register''"
      and sim = "initialSim [empB, empC]" and t = 0 and u = 2]
  by (simp add: scenario_defs common_defs validator_defs scorer_defs staffed_def activeOn_def
      untrainedOn_def trainedOn_def knowing_def notKnowing_def workers_def specCoverage_def Let_def)

section \<open>Validation: proofs\<close>

lemma errorsOf_logError [simp]: "errorsOf (logError m st) = insert m (errorsOf st)"
  by (auto simp: errorsOf_def logError_def)

lemma consistent_logError [simp]: "consistent (logError m st)"
  by (auto simp: consistent_def logError_def)

lemma foldE_append_Inr:
  "foldE f (xs @ ys) a = Inr c \<Longrightarrow> \<exists>b. foldE f xs a = Inr b \<and> foldE f ys b = Inr c"
proof (induction xs arbitrary: a)
  case Nil
  then show ?case by simp
next
  case (Cons x xs)
  from foldE_Cons_Inr [OF Cons.prems [simplified append_Cons]] obtain a1 where
    a1: "f x a = Inr a1" "foldE f (xs @ ys) a1 = Inr c" by blast
  from Cons.IH [OF a1(2)] a1(1) show ?case by auto
qed

lemma foldE_mono:
  assumes "\<And>x a b. x \<in> set xs \<Longrightarrow> f x a = Inr b \<Longrightarrow> g a \<subseteq> g b"
    and "foldE f xs a = Inr b"
  shows "g a \<subseteq> (g b :: 'c set)"
  using assms
proof (induction xs arbitrary: a)
  case Nil
  then show ?case by simp
next
  case (Cons x xs)
  from foldE_Cons_Inr [OF Cons.prems(2)] obtain c where c: "f x a = Inr c" "foldE f xs c = Inr b"
    by blast
  have "g c \<subseteq> g b"
  proof (rule Cons.IH [OF _ c(2)])
    fix y a' b' assume "y \<in> set xs" "f y a' = Inr b'"
    then show "g a' \<subseteq> g b'" using Cons.prems(1) [of y a' b'] by simp
  qed
  moreover have "g a \<subseteq> g c" using Cons.prems(1) [of x a c] c(1) by simp
  ultimately show ?case by blast
qed

lemma findOverlap_iff:
  "findOverlap s xs \<longleftrightarrow>
     (\<exists>p \<in> set xs. max (shiftStart s) (fst p) < min (shiftEnd s) (snd p))"
  by (induction s xs rule: findOverlap.induct) auto

text \<open>What one pass of the loop body logs.\<close>

lemma errorsOf_shiftBody_unknown:
  "getEmployee es (employeeId s) = None \<Longrightarrow>
     errorsOf (accState (shiftBody org es dy s acc))
       = insert (NonExistentEmployee (dayId dy) (employeeId s)) (errorsOf (accState acc))"
  by (simp add: shiftBody_def)

lemma errorsOf_weeklyHours_update [simp]:
  "errorsOf (st\<lparr>weeklyHours := w\<rparr>) = errorsOf st"
  by (simp add: errorsOf_def)

lemma errorsOf_shiftBody_known:
  assumes "getEmployee es (employeeId s) = Some emp"
  shows "errorsOf (accState (shiftBody org es dy s acc)) =
       errorsOf (accState acc)
       \<union> (if dayId dy \<in> vacationDays emp then {OnVacationDay (dayId dy) (employeeId s)} else {})
       \<union> (if shiftStart s < dayStart dy \<or> shiftEnd s > dayEnd dy
          then {OutsideStoreHours (dayId dy) (employeeId s) (shiftStart s) (shiftEnd s)
                  (dayStart dy) (dayEnd dy)} else {})
       \<union> (if findOverlap s (employeeShiftsToday acc (employeeId s))
          then {OverlappingShifts (dayId dy) (employeeId s)} else {})"
  using assms by (auto simp: shiftBody_def Let_def)

lemma errorsOf_shiftBody_mono:
  "errorsOf (accState acc) \<subseteq> errorsOf (accState (shiftBody org es dy s acc))"
proof (cases "getEmployee es (employeeId s)")
  case None
  then show ?thesis by (auto simp: errorsOf_shiftBody_unknown)
next
  case (Some emp)
  then show ?thesis by (auto simp: errorsOf_shiftBody_known)
qed

lemma errorsOf_fold_shiftBody_mono:
  "errorsOf (accState acc) \<subseteq> errorsOf (accState (fold (shiftBody org es dy) xs acc))"
proof (induction xs arbitrary: acc)
  case Nil
  then show ?case by simp
next
  case (Cons x xs)
  show ?case using errorsOf_shiftBody_mono [of acc org es dy x] Cons.IH [of "shiftBody org es dy x acc"]
    by auto
qed

lemma today_shiftBody:
  "employeeShiftsToday (shiftBody org es dy s acc) i =
     (if getEmployee es (employeeId s) \<noteq> None \<and> employeeId s = i
         \<and> \<not> findOverlap s (employeeShiftsToday acc i)
      then employeeShiftsToday acc i @ [(shiftStart s, shiftEnd s)]
      else employeeShiftsToday acc i)"
  by (cases "getEmployee es (employeeId s)") (auto simp: shiftBody_def Let_def)

lemma seen_shiftBody_keep:
  "seen es dy acc t \<Longrightarrow> seen es dy (shiftBody org es dy s acc) t"
  using errorsOf_shiftBody_mono [of acc org es dy s]
  by (auto simp: seen_def today_shiftBody)

lemma seen_shiftBody_new:
  "getEmployee es (employeeId s) \<noteq> None \<Longrightarrow> seen es dy (shiftBody org es dy s acc) s"
  by (auto simp: seen_def today_shiftBody errorsOf_shiftBody_known)

lemma seen_fold:
  assumes "t \<in> set xs" and "getEmployee es (employeeId t) \<noteq> None"
  shows "seen es dy (fold (shiftBody org es dy) xs acc) t"
  using assms(1)
proof (induction xs rule: rev_induct)
  case Nil
  then show ?case by simp
next
  case (snoc x xs)
  show ?case
  proof (cases "t = x")
    case True
    then show ?thesis using assms(2) by (simp add: seen_shiftBody_new)
  next
    case False
    with snoc have "seen es dy (fold (shiftBody org es dy) xs acc) t" by simp
    then show ?thesis by (simp add: seen_shiftBody_keep)
  qed
qed

lemma overlap_logged_step:
  assumes "seen es dy acc t" and "employeeId t = employeeId s"
    and "getEmployee es (employeeId s) \<noteq> None" and "overlaps s t"
  shows "OverlappingShifts (dayId dy) (employeeId s)
           \<in> errorsOf (accState (shiftBody org es dy s acc))"
proof -
  from assms(3) obtain emp where emp: "getEmployee es (employeeId s) = Some emp" by auto
  from assms(1) show ?thesis
    unfolding seen_def
  proof
    assume "(shiftStart t, shiftEnd t) \<in> set (employeeShiftsToday acc (employeeId t))"
    then have "\<exists>p \<in> set (employeeShiftsToday acc (employeeId s)).
                 max (shiftStart s) (fst p) < min (shiftEnd s) (snd p)"
      using assms(2,4) unfolding overlaps_def
      by (intro bexI [of _ "(shiftStart t, shiftEnd t)"]) simp_all
    then have "findOverlap s (employeeShiftsToday acc (employeeId s))"
      by (simp only: findOverlap_iff)
    then show ?thesis by (simp add: errorsOf_shiftBody_known [OF emp])
  next
    assume "OverlappingShifts (dayId dy) (employeeId t) \<in> errorsOf (accState acc)"
    then show ?thesis
      using errorsOf_shiftBody_mono [of acc org es dy s] assms(2) by auto
  qed
qed

text \<open>The errors of the loop over the shifts of a day.\<close>

lemma shiftLoop_logs:
  assumes "shifts = pre @ s # post"
  shows "getEmployee es (employeeId s) = None \<Longrightarrow>
           NonExistentEmployee (dayId dy) (employeeId s)
             \<in> errorsOf (accState (shiftLoop org es dy shifts st))"
    and "getEmployee es (employeeId s) = Some emp \<Longrightarrow> dayId dy \<in> vacationDays emp \<Longrightarrow>
           OnVacationDay (dayId dy) (employeeId s)
             \<in> errorsOf (accState (shiftLoop org es dy shifts st))"
    and "getEmployee es (employeeId s) = Some emp \<Longrightarrow>
           shiftStart s < dayStart dy \<or> shiftEnd s > dayEnd dy \<Longrightarrow>
           OutsideStoreHours (dayId dy) (employeeId s) (shiftStart s) (shiftEnd s)
               (dayStart dy) (dayEnd dy)
             \<in> errorsOf (accState (shiftLoop org es dy shifts st))"
    and "getEmployee es (employeeId s) = Some emp \<Longrightarrow> t \<in> set pre \<Longrightarrow>
           employeeId t = employeeId s \<Longrightarrow> overlaps s t \<Longrightarrow>
           OverlappingShifts (dayId dy) (employeeId s)
             \<in> errorsOf (accState (shiftLoop org es dy shifts st))"
proof -
  define acc0 where "acc0 = \<lparr>accState = st, employeeShiftsToday = (\<lambda>_. []), payrollD = 0,
        coverageMap = (\<lambda>_ _. (0, 0))\<rparr>"
  define acc1 where "acc1 = fold (shiftBody org es dy) pre acc0"
  have loop: "shiftLoop org es dy shifts st
                = fold (shiftBody org es dy) post (shiftBody org es dy s acc1)"
    by (simp add: shiftLoop_def assms acc0_def acc1_def)
  have mono: "errorsOf (accState (shiftBody org es dy s acc1))
                \<subseteq> errorsOf (accState (shiftLoop org es dy shifts st))"
    unfolding loop by (rule errorsOf_fold_shiftBody_mono)
  show "NonExistentEmployee (dayId dy) (employeeId s)
             \<in> errorsOf (accState (shiftLoop org es dy shifts st))"
    if "getEmployee es (employeeId s) = None"
    using mono that by (auto simp: errorsOf_shiftBody_unknown)
  show "OnVacationDay (dayId dy) (employeeId s)
             \<in> errorsOf (accState (shiftLoop org es dy shifts st))"
    if "getEmployee es (employeeId s) = Some emp" "dayId dy \<in> vacationDays emp"
    using mono that by (auto simp: errorsOf_shiftBody_known)
  show "OutsideStoreHours (dayId dy) (employeeId s) (shiftStart s) (shiftEnd s)
               (dayStart dy) (dayEnd dy)
             \<in> errorsOf (accState (shiftLoop org es dy shifts st))"
    if "getEmployee es (employeeId s) = Some emp"
      "shiftStart s < dayStart dy \<or> shiftEnd s > dayEnd dy"
    using mono that by (auto simp: errorsOf_shiftBody_known)
  show "OverlappingShifts (dayId dy) (employeeId s)
             \<in> errorsOf (accState (shiftLoop org es dy shifts st))"
    if "getEmployee es (employeeId s) = Some emp" "t \<in> set pre"
      "employeeId t = employeeId s" "overlaps s t"
  proof -
    have "seen es dy acc1 t"
      unfolding acc1_def using that(1,2,3) by (intro seen_fold) auto
    then have "OverlappingShifts (dayId dy) (employeeId s)
           \<in> errorsOf (accState (shiftBody org es dy s acc1))"
      using that by (intro overlap_logged_step) auto
    with mono show ?thesis by auto
  qed
qed

lemma consistent_weeklyHours_update [simp]:
  "consistent (st\<lparr>weeklyHours := w\<rparr>) = consistent st"
  by (simp add: consistent_def)

lemma consistent_shiftBody:
  "consistent (accState acc) \<Longrightarrow> consistent (accState (shiftBody org es dy s acc))"
  by (cases "getEmployee es (employeeId s)") (auto simp: shiftBody_def Let_def)

lemma consistent_fold_shiftBody:
  "consistent (accState acc) \<Longrightarrow> consistent (accState (fold (shiftBody org es dy) xs acc))"
  by (induction xs arbitrary: acc) (simp_all add: consistent_shiftBody)

lemma trainPair_errors:
  "trainPair es shifts ht p st = Inr st' \<Longrightarrow>
     validationErrors st' = validationErrors st \<and> isValid st' = isValid st"
  by (auto simp: trainPair_def Let_def split: if_splits option.splits)

lemma updateTraining_errors:
  assumes "updateTraining es shifts ht st = Inr st'"
  shows "validationErrors st' = validationErrors st" "isValid st' = isValid st"
proof -
  have "(\<lambda>s. (validationErrors s, isValid s)) st' = (\<lambda>s. (validationErrors s, isValid s)) st"
    by (rule foldE_preserve [OF _ updateTraining_Inr [OF assms]])
       (auto dest: trainPair_errors)
  then show "validationErrors st' = validationErrors st" "isValid st' = isValid st"
    by simp_all
qed

lemma dayBody_open:
  assumes "dayBody org es ds schedule i st = Inr st'" and "lookupDay ds i = Some dy"
    and "\<not> isClosed dy"
  shows "validationErrors st'
           = validationErrors (accState (shiftLoop org es dy (schedule i) (dayEntry i st)))"
    and "isValid st' = isValid (accState (shiftLoop org es dy (schedule i) (dayEntry i st)))"
proof -
  from assms obtain m st2 where
    m: "calculateCapacity org es dy (schedule i) (dayEntry i st) = Inr m"
    and st2: "updateTraining es (schedule i) (hourlyTeachers m) (metricsState m) = Inr st2"
    and st': "st' = accumulate dy (dayProfit org dy (capacityD m) (metricsPayrollD m))
                      (metricsPayrollD m) st2"
    by (auto simp: dayBody_def Let_def dayEntry_def split: sum.splits)
  from m have ms: "metricsState m = accState (shiftLoop org es dy (schedule i) (dayEntry i st))"
    by (auto simp: calculateCapacity_def Let_def split: sum.splits)
  show "validationErrors st'
           = validationErrors (accState (shiftLoop org es dy (schedule i) (dayEntry i st)))"
    using updateTraining_errors(1) [OF st2] by (simp add: st' accumulate_def ms)
  show "isValid st' = isValid (accState (shiftLoop org es dy (schedule i) (dayEntry i st)))"
    using updateTraining_errors(2) [OF st2] by (simp add: st' accumulate_def ms)
qed

lemma dayBody_closed:
  assumes "dayBody org es ds schedule i st = Inr st'" and "lookupDay ds i = Some dy"
    and "isClosed dy"
  shows "validationErrors st' = validationErrors st" "isValid st' = isValid st"
  using assms by (auto simp: dayBody_def Let_def accumulate_def split: if_splits)

lemma shiftLoop_errors_mono:
  "errorsOf st \<subseteq> errorsOf (accState (shiftLoop org es dy shifts st))"
  unfolding shiftLoop_def
  using errorsOf_fold_shiftBody_mono
    [of "\<lparr>accState = st, employeeShiftsToday = (\<lambda>_. []), payrollD = 0,
          coverageMap = (\<lambda>_ _. (0, 0))\<rparr>" org es dy shifts]
  by simp

lemma shiftLoop_consistent:
  "consistent st \<Longrightarrow> consistent (accState (shiftLoop org es dy shifts st))"
  unfolding shiftLoop_def by (rule consistent_fold_shiftBody) simp

lemma errorsOf_dayEntry [simp]: "errorsOf (dayEntry i st) = errorsOf st"
  by (simp add: dayEntry_def)

lemma consistent_dayEntry [simp]: "consistent (dayEntry i st) = consistent st"
  by (simp add: dayEntry_def)

lemma dayBody_errors_mono:
  assumes "dayBody org es ds schedule i st = Inr st'"
  shows "errorsOf st \<subseteq> errorsOf st'"
proof -
  from assms obtain dy where dy: "lookupDay ds i = Some dy"
    by (auto simp: dayBody_def split: option.splits)
  show ?thesis
  proof (cases "isClosed dy")
    case True
    from dayBody_closed(1) [OF assms dy True] show ?thesis by (simp add: errorsOf_def)
  next
    case False
    from dayBody_open(1) [OF assms dy False]
    have "errorsOf st' = errorsOf (accState (shiftLoop org es dy (schedule i) (dayEntry i st)))"
      by (simp add: errorsOf_def)
    with shiftLoop_errors_mono [of "dayEntry i st" org es dy "schedule i"] show ?thesis by simp
  qed
qed

lemma dayBody_consistent:
  assumes "dayBody org es ds schedule i st = Inr st'" and "consistent st"
  shows "consistent st'"
proof -
  from assms(1) obtain dy where dy: "lookupDay ds i = Some dy"
    by (auto simp: dayBody_def split: option.splits)
  show ?thesis
  proof (cases "isClosed dy")
    case True
    from dayBody_closed [OF assms(1) dy True] assms(2) show ?thesis by (simp add: consistent_def)
  next
    case False
    have "consistent (accState (shiftLoop org es dy (schedule i) (dayEntry i st)))"
      using assms(2) by (intro shiftLoop_consistent) simp
    with dayBody_open [OF assms(1) dy False] show ?thesis by (simp add: consistent_def)
  qed
qed

lemma dayLoop_errors_mono:
  assumes "foldE (dayBody org es ds schedule) is st = Inr st'"
  shows "errorsOf st \<subseteq> errorsOf st'"
  by (rule foldE_mono [OF _ assms]) (rule dayBody_errors_mono)

lemma dayLoop_consistent:
  "foldE (dayBody org es ds schedule) is st = Inr st' \<Longrightarrow> consistent st \<Longrightarrow> consistent st'"
proof (induction "is" arbitrary: st)
  case Nil
  then show ?case by simp
next
  case (Cons i "is")
  from foldE_Cons_Inr [OF Cons.prems(1)] obtain st1 where
    st1: "dayBody org es ds schedule i st = Inr st1"
      "foldE (dayBody org es ds schedule) is st1 = Inr st'"
    by blast
  from Cons.IH [OF st1(2)] dayBody_consistent [OF st1(1) Cons.prems(2)] show ?case by simp
qed

text \<open>Every error of the shifts of a visited open day is in the final list.\<close>

lemma dayLoop_day_errors:
  assumes "foldE (dayBody org es ds schedule) is st = Inr st'"
    and "i \<in> set is" and "lookupDay ds i = Some dy" and "\<not> isClosed dy"
  shows "\<exists>st0. errorsOf (accState (shiftLoop org es dy (schedule i) st0)) \<subseteq> errorsOf st'"
proof -
  from split_list [OF assms(2)] obtain pre post where "is": "is = pre @ i # post" by blast
  from foldE_append_Inr [OF assms(1) [unfolded "is"]] obtain st1 where
    st1: "foldE (dayBody org es ds schedule) pre st = Inr st1"
      "foldE (dayBody org es ds schedule) (i # post) st1 = Inr st'"
    by blast
  from foldE_Cons_Inr [OF st1(2)] obtain st2 where
    st2: "dayBody org es ds schedule i st1 = Inr st2"
      "foldE (dayBody org es ds schedule) post st2 = Inr st'"
    by blast
  have "errorsOf st2 = errorsOf (accState (shiftLoop org es dy (schedule i) (dayEntry i st1)))"
    using dayBody_open(1) [OF st2(1) assms(3,4)] by (simp add: errorsOf_def)
  with dayLoop_errors_mono [OF st2(2)] show ?thesis by auto
qed

text \<open>
  No \<^verbatim>\<open>TypeError\<close> when every shift is of an existing employee and no shift is on a skill
  with the name of a property of \<^verbatim>\<open>Object.prototype\<close>.
\<close>

lemma foldE_total:
  assumes "\<And>x a. x \<in> set xs \<Longrightarrow> \<exists>b. f x a = Inr b"
  shows "\<exists>b. foldE f xs a = Inr b"
  using assms
proof (induction xs arbitrary: a)
  case Nil
  then show ?case by simp
next
  case (Cons x xs)
  from Cons.prems [of x a] obtain b where b: "f x a = Inr b" by auto
  from Cons.IH [of b] Cons.prems obtain c where "foldE f xs b = Inr c" by auto
  with b show ?case by simp
qed

lemma maxRateLoop_total:
  assumes "allKnown es shifts"
  shows "\<exists>m. foldE (maxRateBody es st k h) shifts m0 = Inr m"
proof (rule foldE_total)
  fix x a assume "x \<in> set shifts"
  with assms have "getEmployee es (employeeId x) \<noteq> None" by (simp add: allKnown_def list_all_iff)
  then show "\<exists>b. maxRateBody es st k h x a = Inr b"
    by (auto simp: maxRateBody_def)
qed

lemma hourCell_total:
  assumes "allKnown es shifts"
  shows "\<exists>b. hourCell es st shifts cm k h a = Inr b"
  using maxRateLoop_total [OF assms, of st k h 0] by (auto simp: hourCell_def)

lemma calculateCapacity_total:
  assumes "allKnown es shifts"
  shows "\<exists>m. calculateCapacity org es dy shifts st = Inr m"
proof -
  have "\<exists>a. achievedLoop es st' dy shifts cm = Inr a" for st' cm
    unfolding achievedLoop_def
    by (intro foldE_total hourCell_total assms)
  then show ?thesis
    by (auto simp: calculateCapacity_def Let_def split: sum.splits) (metis sum.simps(4))
qed

lemma updateTraining_total:
  assumes "allKnown es shifts" and "plainSkills shifts"
  shows "\<exists>st'. updateTraining es shifts ht st = Inr st'"
proof -
  have no: "\<not> list_ex (\<lambda>s. inheritedName (shiftSkill s) \<and> shiftStart s < shiftEnd s) shifts"
    using assms(2) by (auto simp: plainSkills_def list_all_iff list_ex_iff)
  have "\<exists>st'. foldE (trainPair es shifts ht)
                 (remdups (map (\<lambda>s. (employeeId s, shiftSkill s)) shifts)) st = Inr st'"
  proof (rule foldE_total)
    fix p a assume "p \<in> set (remdups (map (\<lambda>s. (employeeId s, shiftSkill s)) shifts))"
    then obtain s where s: "s \<in> set shifts" "fst p = employeeId s" "snd p = shiftSkill s"
      by auto
    with assms(1) have "getEmployee es (fst p) \<noteq> None"
      by (simp add: allKnown_def list_all_iff)
    moreover have "\<not> inheritedName (snd p)"
      using assms(2) s by (simp add: plainSkills_def list_all_iff)
    ultimately show "\<exists>b. trainPair es shifts ht p a = Inr b"
      by (auto simp: trainPair_def Let_def)
  qed
  with no show ?thesis by (simp add: updateTraining_def)
qed

lemma lookupDay_dayId: "lookupDay ds i = Some dy \<Longrightarrow> dayId dy = i"
  by (auto simp: lookupDay_def find_Some_iff)

lemma lookupDay_dayIds: "i \<in> set (dayIds ds) \<longleftrightarrow> lookupDay ds i \<noteq> None"
  by (auto simp: dayIds_def lookupDay_def find_None_iff)

lemma dayBody_total:
  assumes "i \<in> set (dayIds ds)" and "allKnown es (schedule i)" and "plainSkills (schedule i)"
  shows "\<exists>st'. dayBody org es ds schedule i st = Inr st'"
proof -
  from assms(1) obtain dy where dy: "lookupDay ds i = Some dy"
    by (auto simp: lookupDay_dayIds)
  obtain m where m: "calculateCapacity org es dy (schedule i) (dayEntry i st) = Inr m"
    using calculateCapacity_total [OF assms(2)] by blast
  obtain st2 where "updateTraining es (schedule i) (hourlyTeachers m) (metricsState m) = Inr st2"
    using updateTraining_total [OF assms(2,3)] by blast
  with m dy show ?thesis
    by (auto simp: dayBody_def Let_def dayEntry_def)
qed

lemma dayLoop_total:
  assumes "scheduleKnown es ds schedule" and "schedulePlain ds schedule"
  shows "\<exists>st'. foldE (dayBody org es ds schedule) (dayIds ds) st = Inr st'"
proof (rule foldE_total)
  fix i a assume i: "i \<in> set (dayIds ds)"
  with assms(1) have "allKnown es (schedule i)" by (simp add: scheduleKnown_def list_all_iff)
  moreover from i assms(2) have "plainSkills (schedule i)"
    by (simp add: schedulePlain_def list_all_iff)
  ultimately show "\<exists>b. dayBody org es ds schedule i a = Inr b"
    using i by (intro dayBody_total)
qed

lemma finalOutput_consistent:
  "consistent st \<Longrightarrow>
     finalOutput org ds st =
       (if validationErrors st = []
        then ValidSchedule (totalProfit st) (totalPayroll st) (totalRevenuePotential st)
               (int (length (dayIds ds)) * fixedCost org)
        else InvalidSchedule 0 (validationErrors st))"
  by (simp add: finalOutput_def consistent_def)

text \<open>The parse of the output.\<close>

lemma parseTokens_errors:
  "errorsOf (parseTokens i tokens st)
     = errorsOf st \<union> MalformedShiftToken i ` {token \<in> set tokens. duration token \<le> 0}"
  unfolding parseTokens_def
  by (induction tokens arbitrary: st) auto

lemma parseTokens_consistent: "consistent st \<Longrightarrow> consistent (parseTokens i tokens st)"
  unfolding parseTokens_def
  by (induction tokens arbitrary: st) auto

lemma parseLine_mono: "errorsOf (fst a) \<subseteq> errorsOf (fst (parseLine ds ol a))"
  by (auto simp: parseLine_def Let_def parseTokens_errors split: option.splits)

lemma parseLine_consistent: "consistent (fst a) \<Longrightarrow> consistent (fst (parseLine ds ol a))"
  by (auto simp: parseLine_def Let_def parseTokens_consistent split: option.splits)

lemma parseLines_mono: "errorsOf (fst a) \<subseteq> errorsOf (fst (fold (parseLine ds) ols a))"
proof (induction ols arbitrary: a)
  case Nil
  then show ?case by simp
next
  case (Cons ol ols)
  show ?case using parseLine_mono [of a ds ol] Cons.IH [of "parseLine ds ol a"] by auto
qed

lemma parseLines_consistent:
  "consistent (fst a) \<Longrightarrow> consistent (fst (fold (parseLine ds) ols a))"
  by (induction ols arbitrary: a) (simp_all add: parseLine_consistent)

lemma parseOutput_consistent: "consistent st \<Longrightarrow> consistent (fst (parseOutput ds ols st))"
  by (simp add: parseOutput_def parseLines_consistent)

lemma parseLine_errors:
  "errorsOf (fst (parseLine ds ol a)) = errorsOf (fst a) \<union> lineFaults ds ol"
  by (auto simp: parseLine_def lineFaults_def Let_def parseTokens_errors split: option.splits)

lemma parseLines_errors:
  "errorsOf (fst (fold (parseLine ds) ols a)) = errorsOf (fst a) \<union> (\<Union>ol \<in> set ols. lineFaults ds ol)"
  by (induction ols arbitrary: a) (auto simp: parseLine_errors)

lemma parseOutput_errors:
  "length ols = length (dayIds ds) \<Longrightarrow>
     errorsOf (fst (parseOutput ds ols st)) = errorsOf st \<union> (\<Union>ol \<in> set ols. lineFaults ds ol)"
  by (simp add: parseOutput_def parseLines_errors)

lemmas scenarioX_defs = empX_def dayA2_def lateShift_def linesX_def linesY_def

lemmas parse_defs = validatorRun_def parseOutput_def parseLine_def parseTokens_def

text \<open>
  C9, as amended. When the output was parsed without a fault, every shift is of an
  existing employee and no shift is on a skill with the name of a property of
  \<^verbatim>\<open>Object.prototype\<close>, \<^verbatim>\<open>validateAndScore\<close> of \<^verbatim>\<open>rep_validator.js\<close> runs to the end, checks
  every shift of every open day and does not stop at a fault: for every shift on a
  vacation day of its employee, for every shift outside the opening window, and for every
  shift that overlaps an earlier shift of the same employee on that day, the message of
  that violation is in the final list of errors (a message is kept once, however often it
  is logged); and the report is the computed profit when the list is empty, and otherwise
  \<^verbatim>\<open>INVALID SCHEDULE (Score: 0)\<close> with the list. The faults of the output itself (a wrong
  number of lines, a negative or unknown day id, shifts on a closed day, a shift with
  \<open>start \<ge> end\<close>) are logged by \<^verbatim>\<open>parseOutput\<close>; after any of them \<^verbatim>\<open>validateAndScore\<close>
  returns at once, checks nothing more and reports nothing.
\<close>

theorem validator_collects:
  "(consistent st \<and> isValid st \<and> scheduleKnown es ds schedule \<and> schedulePlain ds schedule \<longrightarrow>
      (\<exists>st'. validateAndScore org es ds schedule st
                = Inr (st', if validationErrors st' = []
                            then ValidSchedule (totalProfit st') (totalPayroll st')
                                   (totalRevenuePotential st')
                                   (int (length (dayIds ds)) * fixedCost org)
                            else InvalidSchedule 0 (validationErrors st'))
         \<and> (\<forall>i dy pre s post emp t.
               lookupDay ds i = Some dy \<and> \<not> isClosed dy \<and> schedule i = pre @ s # post
               \<and> getEmployee es (employeeId s) = Some emp \<longrightarrow>
                 (i \<in> vacationDays emp \<longrightarrow>
                    OnVacationDay i (employeeId s) \<in> set (validationErrors st'))
                 \<and> (shiftStart s < dayStart dy \<or> shiftEnd s > dayEnd dy \<longrightarrow>
                    OutsideStoreHours i (employeeId s) (shiftStart s) (shiftEnd s)
                        (dayStart dy) (dayEnd dy) \<in> set (validationErrors st'))
                 \<and> (t \<in> set pre \<and> employeeId t = employeeId s \<and> overlaps s t \<longrightarrow>
                    OverlappingShifts i (employeeId s) \<in> set (validationErrors st')))))
   \<and> (\<not> isValid st \<longrightarrow> validateAndScore org es ds schedule st = Inr (st, NoReport))
   \<and> (length ols = length (dayIds ds) \<longrightarrow>
        set (validationErrors (fst (parseOutput ds ols (initialState es))))
          = (\<Union>ol \<in> set ols. lineFaults ds ol))
   \<and> consistent (fst (parseOutput ds ols (initialState es)))"
proof (intro conjI impI)
  assume a: "consistent st \<and> isValid st \<and> scheduleKnown es ds schedule
               \<and> schedulePlain ds schedule"
  then obtain st' where loop: "foldE (dayBody org es ds schedule) (dayIds ds) st = Inr st'"
    using dayLoop_total by blast
  have cons: "consistent st'" using dayLoop_consistent [OF loop] a by simp
  have res: "validateAndScore org es ds schedule st
                = Inr (st', if validationErrors st' = []
                            then ValidSchedule (totalProfit st') (totalPayroll st')
                                   (totalRevenuePotential st')
                                   (int (length (dayIds ds)) * fixedCost org)
                            else InvalidSchedule 0 (validationErrors st'))"
    using a loop finalOutput_consistent [OF cons, of org ds]
    by (simp add: validateAndScore_def)
  have logs: "(i \<in> vacationDays emp \<longrightarrow>
                    OnVacationDay i (employeeId s) \<in> set (validationErrors st'))
                 \<and> (shiftStart s < dayStart dy \<or> shiftEnd s > dayEnd dy \<longrightarrow>
                    OutsideStoreHours i (employeeId s) (shiftStart s) (shiftEnd s)
                        (dayStart dy) (dayEnd dy) \<in> set (validationErrors st'))
                 \<and> (t \<in> set pre \<and> employeeId t = employeeId s \<and> overlaps s t \<longrightarrow>
                    OverlappingShifts i (employeeId s) \<in> set (validationErrors st'))"
    if h: "lookupDay ds i = Some dy \<and> \<not> isClosed dy \<and> schedule i = pre @ s # post
               \<and> getEmployee es (employeeId s) = Some emp"
    for i dy pre s post emp t
  proof -
    from h have dy: "lookupDay ds i = Some dy" and op: "\<not> isClosed dy"
      and sch: "schedule i = pre @ s # post"
      and emp: "getEmployee es (employeeId s) = Some emp" by simp_all
    have i: "i \<in> set (dayIds ds)" using dy by (simp add: lookupDay_dayIds)
    have id: "dayId dy = i" using dy by (rule lookupDay_dayId)
    from dayLoop_day_errors [OF loop i dy op] obtain st0 where
      sub: "errorsOf (accState (shiftLoop org es dy (schedule i) st0)) \<subseteq> errorsOf st'"
      by blast
    have v: "OnVacationDay (dayId dy) (employeeId s)
               \<in> errorsOf (accState (shiftLoop org es dy (schedule i) st0))"
      if "dayId dy \<in> vacationDays emp"
      using sch emp that by (rule shiftLoop_logs(2))
    have w: "OutsideStoreHours (dayId dy) (employeeId s) (shiftStart s) (shiftEnd s)
               (dayStart dy) (dayEnd dy)
               \<in> errorsOf (accState (shiftLoop org es dy (schedule i) st0))"
      if "shiftStart s < dayStart dy \<or> shiftEnd s > dayEnd dy"
      using sch emp that by (rule shiftLoop_logs(3))
    have o: "OverlappingShifts (dayId dy) (employeeId s)
               \<in> errorsOf (accState (shiftLoop org es dy (schedule i) st0))"
      if "t \<in> set pre" "employeeId t = employeeId s" "overlaps s t"
      using sch emp that by (rule shiftLoop_logs(4))
    show ?thesis
      using sub v w o unfolding id errorsOf_def by blast
  qed
  from res logs
  show "\<exists>st'. validateAndScore org es ds schedule st
                = Inr (st', if validationErrors st' = []
                            then ValidSchedule (totalProfit st') (totalPayroll st')
                                   (totalRevenuePotential st')
                                   (int (length (dayIds ds)) * fixedCost org)
                            else InvalidSchedule 0 (validationErrors st'))
         \<and> (\<forall>i dy pre s post emp t.
               lookupDay ds i = Some dy \<and> \<not> isClosed dy \<and> schedule i = pre @ s # post
               \<and> getEmployee es (employeeId s) = Some emp \<longrightarrow>
                 (i \<in> vacationDays emp \<longrightarrow>
                    OnVacationDay i (employeeId s) \<in> set (validationErrors st'))
                 \<and> (shiftStart s < dayStart dy \<or> shiftEnd s > dayEnd dy \<longrightarrow>
                    OutsideStoreHours i (employeeId s) (shiftStart s) (shiftEnd s)
                        (dayStart dy) (dayEnd dy) \<in> set (validationErrors st'))
                 \<and> (t \<in> set pre \<and> employeeId t = employeeId s \<and> overlaps s t \<longrightarrow>
                    OverlappingShifts i (employeeId s) \<in> set (validationErrors st')))"
    by blast
next
  assume "\<not> isValid st"
  then show "validateAndScore org es ds schedule st = Inr (st, NoReport)"
    by (simp add: validateAndScore_def)
next
  assume "length ols = length (dayIds ds)"
  from parseOutput_errors [OF this, of "initialState es"]
  show "set (validationErrors (fst (parseOutput ds ols (initialState es))))
          = (\<Union>ol \<in> set ols. lineFaults ds ol)"
    by (simp add: errorsOf_def initialState_def)
next
  show "consistent (fst (parseOutput ds ols (initialState es)))"
    by (rule parseOutput_consistent) (simp add: consistent_def initialState_def)
qed

text \<open>
  The claim as stated fails: with a shift on the closed day 1 and, on day 2, a shift of an
  employee who is on vacation that day, the only error collected is the one of the closed
  day; the vacation conflict is never looked for, and no report (and no score 0) is
  printed.
\<close>

theorem validator_collects_counterexample:
  "map_sum id (\<lambda>r. (validationErrors (fst r), snd r))
     (validatorRun orgA [empX] [closedDay 1, dayA2] linesY)
     = Inr ([ClosedDayHasShifts 1], NoReport)
   \<and> lineTokens (linesY ! 1) = [shiftA] \<and> lineDayId (linesY ! 1) = 2
   \<and> employeeId shiftA = empId empX \<and> 2 \<in> vacationDays empX"
  by (simp add: scenario_defs scenarioW_defs scenarioX_defs common_defs validator_defs parse_defs
      Let_def)

theorem validator_collects_witness:
  "consistent (fst (parseOutput [dayA, dayA2] linesX (initialState [empX])))
   \<and> isValid (fst (parseOutput [dayA, dayA2] linesX (initialState [empX])))
   \<and> scheduleKnown [empX] [dayA, dayA2]
        (snd (parseOutput [dayA, dayA2] linesX (initialState [empX])))
   \<and> schedulePlain [dayA, dayA2]
        (snd (parseOutput [dayA, dayA2] linesX (initialState [empX])))
   \<and> length linesX = length (dayIds [dayA, dayA2])
   \<and> map_sum id snd (validatorRun orgA [empX] [dayA, dayA2] linesX)
       = Inr (InvalidSchedule 0
                [OutsideStoreHours 1 1 9 11 8 10, OverlappingShifts 1 1, OnVacationDay 2 1])"
proof -
  have c: "consistent (fst (parseOutput [dayA, dayA2] linesX (initialState [empX])))
   \<and> isValid (fst (parseOutput [dayA, dayA2] linesX (initialState [empX])))
   \<and> scheduleKnown [empX] [dayA, dayA2]
        (snd (parseOutput [dayA, dayA2] linesX (initialState [empX])))
   \<and> schedulePlain [dayA, dayA2]
        (snd (parseOutput [dayA, dayA2] linesX (initialState [empX])))
   \<and> length linesX = length (dayIds [dayA, dayA2])
   \<and> map_sum id snd (validatorRun orgA [empX] [dayA, dayA2] linesX)
       = Inr (InvalidSchedule 0
                [OutsideStoreHours 1 1 9 11 8 10, OverlappingShifts 1 1, OnVacationDay 2 1])"
    by (simp add: scenario_defs scenarioX_defs common_defs validator_defs parse_defs
        consistent_def scheduleKnown_def allKnown_def schedulePlain_def plainSkills_def Let_def)
  note t = validator_collects [of "fst (parseOutput [dayA, dayA2] linesX (initialState [empX]))"
      "[empX]" "[dayA, dayA2]" "snd (parseOutput [dayA, dayA2] linesX (initialState [empX]))"
      orgA linesX]
  show ?thesis by (rule conjunct1 [OF conjI [OF c t]])
qed

section \<open>A skill with the name of a property of \<^verbatim>\<open>Object.prototype\<close>: evaluation\<close>

text \<open>
  In \<^verbatim>\<open>rep_validator.js\<close> the employee of scenario A, trained on \<open>constructor\<close> and alone on
  it over the day, gives the capacity 0, and the run ends in the \<^verbatim>\<open>TypeError\<close> of
  \<^verbatim>\<open>updateTraining\<close>. In \<^verbatim>\<open>calculateScore\<close> of \<^verbatim>\<open>bah3.js\<close> the untrained employee with
  learning rate 1000 is not staged and not promoted after the first hour on \<open>constructor\<close>:
  the coverage of both hours is 1/2.
\<close>

lemma inherited_skill_validator:
  "isTrained (initialState [empK]) 1 ''constructor''
   \<and> trainedOn (initialState [empK]) ''constructor'' (staffed [empK] [shiftK] 8 ''constructor'')
       = [shiftK]
   \<and> map_sum id capacityD
        (calculateCapacity orgA [empK] dayK [shiftK] (initialState [empK])) = Inr 0
   \<and> validatorRun orgA [empK] [dayK] [\<lparr>lineDayId = 1, lineTokens = [shiftK]\<rparr>]
       = Inl TypeError"
  by (simp add: scenario_defs dayK_def empK_def shiftK_def common_defs validator_defs parse_defs
      staffed_def trainedOn_def Let_def)

lemma inherited_skill_scorer:
  "map_sum id (\<lambda>st. (''constructor'' \<in> knownSkills st 6, newSkillsLearned st 6,
                     achievedSkillHours st))
     (foldE (hourStep orgA [empV] dayK [shiftL]) [8, 9] (initialSim [empV]))
     = Inr (False, None, 1)"
  by (simp add: scenario_defs scenarioV_defs dayK_def shiftL_def common_defs scorer_defs Let_def)

section \<open>Unknown references: proofs\<close>

lemma getEmployee_None: "getEmployee es i = None \<longleftrightarrow> i \<notin> empId ` set es"
  by (auto simp: getEmployee_def find_None_iff)

lemma unknownUntrained_initial: "unknownUntrained es (initialState es)"
  by (auto simp: unknownUntrained_def initialState_def getEmployee_None list_ex_iff)

lemma trainLoop_unknown:
  assumes "foldE (trainPair es shifts ht) ps st = Inr st'"
    and "(i, k) \<in> set ps" and "getEmployee es i = None" and "\<not> isTrained st i k"
    and "\<not> inheritedName k"
  shows "empSkillHours shifts i k = []"
  using assms(1,2,4)
proof (induction ps arbitrary: st)
  case Nil
  then show ?case by simp
next
  case (Cons p ps)
  from foldE_Cons_Inr [OF Cons.prems(1)] obtain st1 where
    st1: "trainPair es shifts ht p st = Inr st1" "foldE (trainPair es shifts ht) ps st1 = Inr st'"
    by blast
  show ?case
  proof (cases "p = (i, k)")
    case True
    with st1(1) Cons.prems(3) assms(3,5) show ?thesis
      by (auto simp: trainPair_def Let_def split: if_splits)
  next
    case False
    with Cons.prems(2) have in_ps: "(i, k) \<in> set ps" by simp
    have "skillPoints st1 i k = skillPoints st i k"
      using trainPair_points [OF st1(1), of i k] False by simp
    then have "\<not> isTrained st1 i k" using Cons.prems(3) by (simp add: isTrained_def)
    from Cons.IH [OF st1(2) in_ps this] show ?thesis .
  qed
qed

lemma updateTraining_unknown:
  assumes "s \<in> set shifts" and "getEmployee es (employeeId s) = None"
    and "\<not> isTrained st (employeeId s) (shiftSkill s)" and "shiftStart s < shiftEnd s"
  shows "updateTraining es shifts ht st = Inl TypeError"
proof (cases "updateTraining es shifts ht st")
  case (Inl e)
  then show ?thesis by (cases e) simp
next
  case (Inr st')
  have plain: "\<not> inheritedName (shiftSkill s)"
    using Inr assms(1,4) by (auto simp: updateTraining_def list_ex_iff split: if_splits)
  have "(employeeId s, shiftSkill s)
          \<in> set (remdups (map (\<lambda>s. (employeeId s, shiftSkill s)) shifts))"
    using assms(1) by auto
  from trainLoop_unknown [OF updateTraining_Inr [OF Inr] this assms(2,3) plain]
  have "empSkillHours shifts (employeeId s) (shiftSkill s) = []" .
  moreover have "shiftStart s \<in> set (empSkillHours shifts (employeeId s) (shiftSkill s))"
    using assms(1,4) by (auto simp: empSkillHours_def)
  ultimately show ?thesis by simp
qed

lemma skillPoints_dayEntry [simp]: "skillPoints (dayEntry i st) = skillPoints st"
  by (simp add: dayEntry_def)

lemma dayBody_cases:
  assumes "dayBody org es ds schedule i st = Inr st'"
  obtains dy where "lookupDay ds i = Some dy" "isClosed dy"
      "st' = accumulate dy (- rat_of_int (fixedCost org)) 0 (dayEntry i st)"
  | dy m st2 where "lookupDay ds i = Some dy" "\<not> isClosed dy"
      "calculateCapacity org es dy (schedule i) (dayEntry i st) = Inr m"
      "updateTraining es (schedule i) (hourlyTeachers m) (metricsState m) = Inr st2"
      "st' = accumulate dy (dayProfit org dy (capacityD m) (metricsPayrollD m))
               (metricsPayrollD m) st2"
  using assms
  by (auto simp: dayBody_def Let_def dayEntry_def split: option.splits if_splits sum.splits)

lemma learningRateOf_unknown: "getEmployee es i = None \<Longrightarrow> learningRateOf es i = 0"
  by (simp add: learningRateOf_def)

lemma dayBody_unknownUntrained:
  assumes "dayBody org es ds schedule i st = Inr st'" and "unknownUntrained es st"
  shows "unknownUntrained es st'"
  using assms(1)
proof (cases rule: dayBody_cases)
  case (1 dy)
  with assms(2) show ?thesis by (simp add: unknownUntrained_def accumulate_def)
next
  case (2 dy m st2)
  have sp: "skillPoints (metricsState m) = skillPoints st"
    using 2(3)
    by (auto simp: calculateCapacity_def Let_def shiftLoop_def skillPoints_fold_shiftBody
        split: sum.splits)
  have "skillPoints st2 j k = skillPoints st j k" if "getEmployee es j = None" for j k
    using updateTraining_points [OF 2(4), of j k] that
    by (simp add: learningRateOf_unknown dayGain_def sp)
  with assms(2) show ?thesis by (simp add: unknownUntrained_def 2(5) accumulate_def)
qed

lemma dayLoop_unknownUntrained:
  "foldE (dayBody org es ds schedule) is st = Inr st' \<Longrightarrow> unknownUntrained es st \<Longrightarrow>
     unknownUntrained es st'"
proof (induction "is" arbitrary: st)
  case Nil
  then show ?case by simp
next
  case (Cons i "is")
  from foldE_Cons_Inr [OF Cons.prems(1)] obtain st1 where
    st1: "dayBody org es ds schedule i st = Inr st1"
      "foldE (dayBody org es ds schedule) is st1 = Inr st'"
    by blast
  from Cons.IH [OF st1(2)] dayBody_unknownUntrained [OF st1(1) Cons.prems(2)] show ?case by simp
qed

lemma dayBody_unknown_employee:
  assumes "lookupDay ds i = Some dy" and "\<not> isClosed dy" and "s \<in> set (schedule i)"
    and "getEmployee es (employeeId s) = None" and "shiftStart s < shiftEnd s"
    and "unknownUntrained es st"
  shows "dayBody org es ds schedule i st = Inl TypeError"
proof (cases "dayBody org es ds schedule i st")
  case (Inl e)
  then show ?thesis by (cases e) simp
next
  case (Inr st')
  then show ?thesis
  proof (cases rule: dayBody_cases)
    case (1 dy')
    with assms(1,2) show ?thesis by simp
  next
    case (2 dy' m st2)
    have sp: "skillPoints (metricsState m) = skillPoints st"
      using 2(3)
      by (auto simp: calculateCapacity_def Let_def shiftLoop_def skillPoints_fold_shiftBody
          split: sum.splits)
    have "\<not> isTrained (metricsState m) (employeeId s) (shiftSkill s)"
      using assms(4,6) by (simp add: isTrained_def sp unknownUntrained_def not_le)
    from updateTraining_unknown [OF assms(3,4) this assms(5)] 2(4) show ?thesis by simp
  qed
qed

lemma dayLoop_unknown_employee:
  assumes "i \<in> set is" and "lookupDay ds i = Some dy" and "\<not> isClosed dy"
    and "s \<in> set (schedule i)"
    and "getEmployee es (employeeId s) = None" and "shiftStart s < shiftEnd s"
    and "unknownUntrained es st"
  shows "foldE (dayBody org es ds schedule) is st = Inl TypeError"
proof (cases "foldE (dayBody org es ds schedule) is st")
  case (Inl e)
  then show ?thesis by (cases e) simp
next
  case (Inr st')
  from split_list [OF assms(1)] obtain pre post where "is": "is = pre @ i # post" by blast
  from foldE_append_Inr [OF Inr [unfolded "is"]] obtain st1 where
    st1: "foldE (dayBody org es ds schedule) pre st = Inr st1"
      "foldE (dayBody org es ds schedule) (i # post) st1 = Inr st'"
    by blast
  from foldE_Cons_Inr [OF st1(2)] obtain st2 where
    st2: "dayBody org es ds schedule i st1 = Inr st2" by blast
  have "unknownUntrained es st1" using dayLoop_unknownUntrained [OF st1(1) assms(7)] .
  with assms(2-6) have "dayBody org es ds schedule i st1 = Inl TypeError"
    by (rule dayBody_unknown_employee)
  with st2 show ?thesis by simp
qed

text \<open>The schedule that \<^verbatim>\<open>parseOutput\<close> builds.\<close>

lemma parseLine_schedule_other:
  "lineDayId ol \<noteq> j \<Longrightarrow> snd (parseLine ds ol a) j = snd a j"
  by (auto simp: parseLine_def Let_def split: option.splits)

lemma parseLine_schedule_own:
  "lineFaults ds ol = {} \<Longrightarrow>
     snd (parseLine ds ol a) (lineDayId ol)
       = filter (\<lambda>token. \<not> duration token \<le> 0) (lineTokens ol)"
  by (auto simp: parseLine_def lineFaults_def Let_def split: option.splits if_splits)

lemma parseLines_schedule_other:
  "j \<notin> lineDayId ` set ols \<Longrightarrow> snd (fold (parseLine ds) ols a) j = snd a j"
  by (induction ols arbitrary: a) (auto simp: parseLine_schedule_other)

lemma parseLines_schedule:
  assumes "distinct (map lineDayId ols)" and "ol \<in> set ols" and "lineFaults ds ol = {}"
  shows "snd (fold (parseLine ds) ols a) (lineDayId ol)
           = filter (\<lambda>token. \<not> duration token \<le> 0) (lineTokens ol)"
  using assms(1,2)
proof (induction ols arbitrary: a)
  case Nil
  then show ?case by simp
next
  case (Cons x ols)
  show ?case
  proof (cases "x = ol")
    case True
    with Cons.prems(1) have "lineDayId ol \<notin> lineDayId ` set ols" by auto
    then have "snd (fold (parseLine ds) ols (parseLine ds ol a)) (lineDayId ol)
                 = snd (parseLine ds ol a) (lineDayId ol)"
      by (rule parseLines_schedule_other)
    with True assms(3) show ?thesis by (simp add: parseLine_schedule_own)
  next
    case False
    with Cons.prems have "distinct (map lineDayId ols)" "ol \<in> set ols" by simp_all
    from Cons.IH [OF this] show ?thesis by simp
  qed
qed

lemma skillPoints_parseTokens [simp]: "skillPoints (parseTokens i tokens st) = skillPoints st"
  unfolding parseTokens_def by (induction tokens arbitrary: st) simp_all

lemma skillPoints_parseLine [simp]: "skillPoints (fst (parseLine ds ol a)) = skillPoints (fst a)"
  by (auto simp: parseLine_def Let_def split: option.splits)

lemma skillPoints_parseLines [simp]:
  "skillPoints (fst (fold (parseLine ds) ols a)) = skillPoints (fst a)"
  by (induction ols arbitrary: a) simp_all

lemma skillPoints_parseOutput [simp]:
  "skillPoints (fst (parseOutput ds ols st)) = skillPoints st"
  by (simp add: parseOutput_def)

lemma unknownUntrained_parseOutput:
  "unknownUntrained es (fst (parseOutput ds ols (initialState es)))"
  using unknownUntrained_initial [of es] by (simp add: unknownUntrained_def)

lemma parseOutput_valid:
  assumes "isValid (fst (parseOutput ds ols (initialState es)))"
  shows "length ols = length (dayIds ds)" and "\<And>ol. ol \<in> set ols \<Longrightarrow> lineFaults ds ol = {}"
proof -
  have cons: "consistent (fst (parseOutput ds ols (initialState es)))"
    by (rule parseOutput_consistent) (simp add: consistent_def initialState_def)
  with assms have none: "errorsOf (fst (parseOutput ds ols (initialState es))) = {}"
    by (simp add: consistent_def errorsOf_def)
  show len: "length ols = length (dayIds ds)"
  proof (rule ccontr)
    assume "length ols \<noteq> length (dayIds ds)"
    then have "errorsOf (fst (parseOutput ds ols (initialState es))) \<noteq> {}"
      by (simp add: parseOutput_def)
    with none show False by simp
  qed
  show "lineFaults ds ol = {}" if "ol \<in> set ols" for ol
    using parseOutput_errors [OF len, of "initialState es"] none that by auto
qed

lemma validatorRun_invalid_parse:
  "\<not> isValid (fst (parseOutput ds ols (initialState es))) \<Longrightarrow>
     validatorRun org es ds ols = Inr (fst (parseOutput ds ols (initialState es)), NoReport)"
  by (simp add: validatorRun_def validateAndScore_def Let_def)

lemma validatorRun_unknown_employee:
  assumes "distinct (map lineDayId ols)" and "ol \<in> set ols" and "s \<in> set (lineTokens ol)"
    and "getEmployee es (employeeId s) = None"
  shows "validatorRun org es ds ols =
           (if isValid (fst (parseOutput ds ols (initialState es))) then Inl TypeError
            else Inr (fst (parseOutput ds ols (initialState es)), NoReport))"
proof (cases "isValid (fst (parseOutput ds ols (initialState es)))")
  case False
  then show ?thesis by (simp add: validatorRun_invalid_parse)
next
  case True
  define p where "p = parseOutput ds ols (initialState es)"
  have len: "length ols = length (dayIds ds)" using True by (rule parseOutput_valid(1))
  have nf: "lineFaults ds ol = {}" using True assms(2) by (rule parseOutput_valid(2))
  from nf assms(3) obtain dy where dy: "lookupDay ds (lineDayId ol) = Some dy"
    and op: "\<not> isClosed dy" and dur: "\<not> duration s \<le> 0"
    by (auto simp: lineFaults_def split: if_splits option.splits)
  have sch: "snd p (lineDayId ol) = filter (\<lambda>token. \<not> duration token \<le> 0) (lineTokens ol)"
    unfolding p_def using len parseLines_schedule [OF assms(1,2) nf]
    by (simp add: parseOutput_def)
  have s: "s \<in> set (snd p (lineDayId ol))" using assms(3) dur by (simp add: sch)
  have i: "lineDayId ol \<in> set (dayIds ds)" using dy by (simp add: lookupDay_dayIds)
  have pos: "shiftStart s < shiftEnd s" using dur by (simp add: duration_def)
  have "foldE (dayBody org es ds (snd p)) (dayIds ds) (fst p) = Inl TypeError"
    using i dy op s assms(4) pos unknownUntrained_parseOutput [of es ds ols]
    unfolding p_def by (rule dayLoop_unknown_employee)
  then show ?thesis
    using True by (simp add: validatorRun_def validateAndScore_def Let_def p_def)
qed

lemma validatorRun_unknown_day:
  assumes "ol \<in> set ols" and "lookupDay ds (lineDayId ol) = None"
  shows "\<not> isValid (fst (parseOutput ds ols (initialState es)))"
proof
  assume "isValid (fst (parseOutput ds ols (initialState es)))"
  from parseOutput_valid(2) [OF this assms(1)] assms(2) show False
    by (simp add: lineFaults_def split: if_splits)
qed

text \<open>\<^verbatim>\<open>validateSchedule\<close> of \<^verbatim>\<open>bah3.js\<close>: errors are only ever appended.\<close>

lemma checkShift_mono: "set (fst a) \<subseteq> set (fst (checkShift es dy s a))"
  by (auto simp: checkShift_def Let_def split: option.splits)

lemma checkShifts_mono: "set (fst a) \<subseteq> set (fst (fold (checkShift es dy) xs a))"
proof (induction xs arbitrary: a)
  case Nil
  then show ?case by simp
next
  case (Cons x xs)
  show ?case using checkShift_mono [of a es dy x] Cons.IH [of "checkShift es dy x a"] by auto
qed

lemma checkDay_mono: "set errors \<subseteq> set (checkDay es schedule dy errors)"
proof (cases "map_of schedule (dayId dy)")
  case None
  then show ?thesis by (auto simp: checkDay_def)
next
  case (Some shifts)
  show ?thesis
    using checkShifts_mono [of "(errors, \<lambda>_. [])" es dy shifts]
      checkShifts_mono [of "(errors @ [ClosedDayShifts (dayId dy)], \<lambda>_. [])" es dy shifts]
    by (auto simp: checkDay_def Some Let_def)
qed

lemma checkDays_mono: "set errors \<subseteq> set (fold (checkDay es schedule) ds errors)"
proof (induction ds arbitrary: errors)
  case Nil
  then show ?case by simp
next
  case (Cons d ds)
  show ?case
    using checkDay_mono [of errors es schedule d] Cons.IH [of "checkDay es schedule d errors"]
    by auto
qed

lemma checkShifts_unknown:
  assumes "s \<in> set xs" and "getEmployee es (employeeId s) = None"
  shows "UnknownEmployee (dayId dy) s (employeeId s) \<in> set (fst (fold (checkShift es dy) xs a))"
proof -
  from split_list [OF assms(1)] obtain pre post where xs: "xs = pre @ s # post" by blast
  have "UnknownEmployee (dayId dy) s (employeeId s)
          \<in> set (fst (checkShift es dy s (fold (checkShift es dy) pre a)))"
    using assms(2) by (simp add: checkShift_def)
  then show ?thesis
    using checkShifts_mono [of "checkShift es dy s (fold (checkShift es dy) pre a)" es dy post]
    by (auto simp: xs)
qed

lemma checkDay_unknown:
  assumes "map_of schedule (dayId dy) = Some shifts" and "s \<in> set shifts"
    and "getEmployee es (employeeId s) = None"
  shows "UnknownEmployee (dayId dy) s (employeeId s) \<in> set (checkDay es schedule dy errors)"
  using assms(1) checkShifts_unknown [OF assms(2,3)]
  by (simp add: checkDay_def Let_def)

lemma validationReport_unknown:
  assumes "dy \<in> set ds" and "map_of schedule (dayId dy) = Some shifts" and "s \<in> set shifts"
    and "getEmployee es (employeeId s) = None"
  shows "UnknownEmployee (dayId dy) s (employeeId s) \<in> set (validationReport es ds schedule)"
proof -
  from split_list [OF assms(1)] obtain pre post where ds: "ds = pre @ dy # post" by blast
  define e0 where "e0 = (if length schedule \<noteq> length ds
                         then [InvalidLineCount (length ds) (length schedule)] else [])"
  have "UnknownEmployee (dayId dy) s (employeeId s)
          \<in> set (checkDay es schedule dy (fold (checkDay es schedule) pre e0))"
    using assms(2-4) by (rule checkDay_unknown)
  then have "UnknownEmployee (dayId dy) s (employeeId s)
          \<in> set (fold (checkDay es schedule) (pre @ dy # post) e0)"
    using checkDays_mono
      [of "checkDay es schedule dy (fold (checkDay es schedule) pre e0)" es schedule post]
    by auto
  moreover have "validationReport es ds schedule = fold (checkDay es schedule) ds e0"
    by (simp only: validationReport_def e0_def)
  ultimately show ?thesis by (simp only: ds)
qed

lemmas scenarioZ_defs = shift99_def bogusShift_def

lemmas solver_defs = validateAndScoreSchedule_def validateSchedule_def validationReport_def
  checkDay_def checkShift_def mapGet_def

text \<open>
  C8, as amended. A shift of an employee that is absent from the input never yields a score.
  In \<^verbatim>\<open>rep_validator.js\<close> (one line per day id) the run then returns without a report when
  the output had a parse fault, and otherwise ends in the \<^verbatim>\<open>TypeError\<close> that
  \<^verbatim>\<open>updateTraining\<close> raises on \<^verbatim>\<open>employee.learningRate\<close>, after \<^verbatim>\<open>calculateCapacity\<close> has logged the
  employee and skipped the shift. A line for a day id that is absent from the input is a
  parse fault: the run returns without a report. In \<^verbatim>\<open>bah3.js\<close>, \<^verbatim>\<open>validateSchedule\<close> records
  the unknown employee and \<^verbatim>\<open>run\<close> aborts with the recorded errors, without scoring. The
  skill of a shift is not checked by either program.
\<close>

theorem unknown_references:
  "(distinct (map lineDayId ols) \<and> ol \<in> set ols \<and> s \<in> set (lineTokens ol)
      \<and> getEmployee es (employeeId s) = None \<longrightarrow>
        validatorRun org es ds ols =
           (if isValid (fst (parseOutput ds ols (initialState es))) then Inl TypeError
            else Inr (fst (parseOutput ds ols (initialState es)), NoReport)))
   \<and> (ol \<in> set ols \<and> lookupDay ds (lineDayId ol) = None \<longrightarrow>
        \<not> isValid (fst (parseOutput ds ols (initialState es)))
        \<and> validatorRun org es ds ols
            = Inr (fst (parseOutput ds ols (initialState es)), NoReport))
   \<and> (dy \<in> set ds \<and> map_of schedule (dayId dy) = Some shifts \<and> s \<in> set shifts
      \<and> getEmployee es (employeeId s) = None \<longrightarrow>
        UnknownEmployee (dayId dy) s (employeeId s) \<in> set (validationReport es ds schedule)
        \<and> validateAndScoreSchedule org es ds schedule
            = Aborted (validationReport es ds schedule))"
proof (intro conjI impI)
  assume "distinct (map lineDayId ols) \<and> ol \<in> set ols \<and> s \<in> set (lineTokens ol)
      \<and> getEmployee es (employeeId s) = None"
  then show "validatorRun org es ds ols =
           (if isValid (fst (parseOutput ds ols (initialState es))) then Inl TypeError
            else Inr (fst (parseOutput ds ols (initialState es)), NoReport))"
    by (intro validatorRun_unknown_employee [of ols ol s]) simp_all
next
  assume a: "ol \<in> set ols \<and> lookupDay ds (lineDayId ol) = None"
  then show inv: "\<not> isValid (fst (parseOutput ds ols (initialState es)))"
    by (intro validatorRun_unknown_day [of ol]) simp_all
  then show "validatorRun org es ds ols
            = Inr (fst (parseOutput ds ols (initialState es)), NoReport)"
    by (rule validatorRun_invalid_parse)
next
  assume a: "dy \<in> set ds \<and> map_of schedule (dayId dy) = Some shifts \<and> s \<in> set shifts
      \<and> getEmployee es (employeeId s) = None"
  then show u: "UnknownEmployee (dayId dy) s (employeeId s)
                  \<in> set (validationReport es ds schedule)"
    by (intro validationReport_unknown [of dy ds schedule shifts]) simp_all
  then have "validationReport es ds schedule \<noteq> []" by auto
  then show "validateAndScoreSchedule org es ds schedule
            = Aborted (validationReport es ds schedule)"
    by (simp add: validateAndScoreSchedule_def validateSchedule_def)
qed

text \<open>
  C8 as stated fails for the skill: a shift on a skill that the day does not require and
  that no employee has is billed and the schedule is scored as valid, by both programs.
\<close>

theorem unknown_references_counterexample:
  "map_sum id snd
     (validatorRun orgA [empA 1 1, empB] [dayA]
        [\<lparr>lineDayId = 1, lineTokens = [shiftA, bogusShift]\<rparr>])
     = Inr (ValidSchedule 860 40 1000 100)
   \<and> validateAndScoreSchedule orgA [empA 1 1, empB] [dayA] [(1, [shiftA, bogusShift])]
     = Written [(1, [shiftA, bogusShift])] 860
   \<and> shiftSkill bogusShift \<notin> set (requiredSkills dayA)
   \<and> shiftSkill bogusShift \<notin> initialSkills (empA 1 1) \<union> initialSkills empB"
  by (simp add: scenario_defs scenarioZ_defs common_defs validator_defs parse_defs scorer_defs
      solver_defs Let_def)

text \<open>
  The hypotheses of C8 at concrete inputs: a shift of employee 99, and a line for day 5.
\<close>

theorem unknown_references_witness:
  "distinct (map lineDayId [\<lparr>lineDayId = 1, lineTokens = [shiftA, shift99]\<rparr>])
   \<and> getEmployee [empA 1 1] (employeeId shift99) = None
   \<and> validatorRun orgA [empA 1 1] [dayA] [\<lparr>lineDayId = 1, lineTokens = [shiftA, shift99]\<rparr>]
       = Inl TypeError
   \<and> lookupDay [dayA] 5 = None
   \<and> map_sum id snd
       (validatorRun orgA [empA 1 1] [dayA] [\<lparr>lineDayId = 5, lineTokens = [shiftA]\<rparr>])
       = Inr NoReport
   \<and> validateAndScoreSchedule orgA [empA 1 1] [dayA] [(1, [shiftA, shift99])]
       = Aborted [UnknownEmployee 1 shift99 99]"
proof -
  have c: "distinct (map lineDayId [\<lparr>lineDayId = 1, lineTokens = [shiftA, shift99]\<rparr>])
   \<and> getEmployee [empA 1 1] (employeeId shift99) = None
   \<and> validatorRun orgA [empA 1 1] [dayA] [\<lparr>lineDayId = 1, lineTokens = [shiftA, shift99]\<rparr>]
       = Inl TypeError
   \<and> lookupDay [dayA] 5 = None
   \<and> map_sum id snd
       (validatorRun orgA [empA 1 1] [dayA] [\<lparr>lineDayId = 5, lineTokens = [shiftA]\<rparr>])
       = Inr NoReport
   \<and> validateAndScoreSchedule orgA [empA 1 1] [dayA] [(1, [shiftA, shift99])]
       = Aborted [UnknownEmployee 1 shift99 99]"
    by (simp add: scenario_defs scenarioZ_defs common_defs validator_defs parse_defs solver_defs
        Let_def)
  note t = unknown_references [of "[\<lparr>lineDayId = 1, lineTokens = [shiftA, shift99]\<rparr>]"
      "\<lparr>lineDayId = 1, lineTokens = [shiftA, shift99]\<rparr>" shift99 "[empA 1 1]" orgA "[dayA]"
      dayA "[(1, [shiftA, shift99])]" "[shiftA, shift99]"]
  show ?thesis by (rule conjunct1 [OF conjI [OF c t]])
qed

section \<open>Merging: proofs\<close>

lemma slots_join:
  assumes "a \<le> b" and "b \<le> c"
  shows "slots e a b k + slots e b c k = slots e a c k"
proof -
  have "[a..c - 1] = [a..b - 1] @ [b..c - 1]"
    using assms upto_split1 [of a b "c - 1"]
    by (cases "b = c") (simp_all)
  then show ?thesis by (simp add: slots_def)
qed

lemma slots_single: "slots e a (a + 1) k = {#(e, a, k)#}"
  by (simp add: slots_def)

lemma mset_insertBy: "mset (insertBy cmp x ys) = add_mset x (mset ys)"
  by (induction ys) simp_all

lemma mset_sortBy: "mset (sortBy cmp xs) = mset xs"
  by (induction xs) (simp_all add: sortBy_def mset_insertBy)

lemma covered_append: "covered (xs @ ys) = covered xs + covered ys"
  by (simp add: covered_def)

lemma covered_mset:
  "covered xs = (\<Sum>s\<in>#mset xs. slots (employeeId s) (shiftStart s) (shiftEnd s) (shiftSkill s))"
  by (induction xs) (simp_all add: covered_def)

lemma covered_sortBy: "covered (sortBy cmp xs) = covered xs"
  by (simp add: covered_mset mset_sortBy)

lemma mergeLoop_covered:
  assumes "shiftStart cur \<le> shiftEnd cur" and "\<forall>s \<in> set rest. shiftStart s \<le> shiftEnd s"
  shows "covered (mergeLoop cur rest merged) = covered merged + covered (cur # rest)"
  using assms
proof (induction rest arbitrary: cur merged)
  case Nil
  then show ?case by (simp add: covered_append)
next
  case (Cons nx rest)
  show ?case
  proof (cases "employeeId cur = employeeId nx \<and> shiftSkill cur = shiftSkill nx
                 \<and> shiftEnd cur = shiftStart nx")
    case True
    have "covered (mergeLoop (cur\<lparr>shiftEnd := shiftEnd nx\<rparr>) rest merged)
            = covered merged + covered (cur\<lparr>shiftEnd := shiftEnd nx\<rparr> # rest)"
      using Cons.prems True by (intro Cons.IH) simp_all
    moreover have "slots (employeeId cur) (shiftStart cur) (shiftEnd nx) (shiftSkill cur)
        = slots (employeeId cur) (shiftStart cur) (shiftEnd cur) (shiftSkill cur)
          + slots (employeeId nx) (shiftStart nx) (shiftEnd nx) (shiftSkill nx)"
      using Cons.prems True by (simp add: slots_join)
    ultimately show ?thesis using True by (simp add: covered_def)
  next
    case False
    have "covered (mergeLoop nx rest (merged @ [cur]))
            = covered (merged @ [cur]) + covered (nx # rest)"
      using Cons.prems by (intro Cons.IH) simp_all
    then show ?thesis using False by (auto simp: covered_def)
  qed
qed

lemma mergeShifts_bah_covered:
  assumes "\<forall>s \<in> set shifts. shiftStart s \<le> shiftEnd s"
  shows "covered (mergeShifts_bah localeCompare shifts) = covered shifts"
proof (cases "shifts = []")
  case True
  then show ?thesis by (simp add: mergeShifts_bah_def)
next
  case False
  define sorted where "sorted = sortBy (compareShifts localeCompare) shifts"
  have m: "mset sorted = mset shifts" by (simp add: sorted_def mset_sortBy)
  then have "sorted \<noteq> []" using False by auto
  then have hd: "sorted = hd sorted # tl sorted" by simp
  have s: "set sorted = set shifts" using m by (rule mset_eq_setD)
  then have "\<forall>s \<in> set (hd sorted # tl sorted). shiftStart s \<le> shiftEnd s"
    using assms hd by simp
  then have "covered (mergeLoop (hd sorted) (tl sorted) []) = covered [] + covered (hd sorted # tl sorted)"
    by (intro mergeLoop_covered) simp_all
  then have "covered (mergeLoop (hd sorted) (tl sorted) []) = covered sorted"
    using hd by (simp add: covered_def)
  moreover have "covered sorted = covered shifts" by (simp add: sorted_def covered_sortBy)
  moreover have "mergeShifts_bah localeCompare shifts = mergeLoop (hd sorted) (tl sorted) []"
    using False by (simp add: mergeShifts_bah_def Let_def sorted_def)
  ultimately show ?thesis by simp
qed

text \<open>The key of a shift with a non-negative employee id and a skill without \<^verbatim>\<open>-\<close> is read back.\<close>

lemma digitChar_cases:
  assumes "d < 10"
  shows "digitChar d \<noteq> CHR ''-'' \<and> digitVal (digitChar d) = Some d"
proof -
  from assms have "d \<in> {0, 1, 2, 3, 4, 5, 6, 7, 8, 9}" by auto
  then show ?thesis
    by (auto simp: digitChar_def digitVal_def)
qed

lemma digits_no_hyphen: "CHR ''-'' \<notin> set (digits n)"
proof (induction n rule: digits.induct)
  case (1 n)
  show ?case
  proof (cases "n < 10")
    case True
    then show ?thesis using digitChar_cases [of n] by (subst digits.simps) auto
  next
    case False
    then have "CHR ''-'' \<notin> set (digits (n div 10))" by (rule 1)
    moreover have "digitChar (n mod 10) \<noteq> CHR ''-''" using digitChar_cases [of "n mod 10"] by simp
    ultimately show ?thesis using False by (subst digits.simps) auto
  qed
qed

lemma decimal_append:
  "decimal (xs @ ys) acc = (case decimal xs acc of None \<Rightarrow> None | Some m \<Rightarrow> decimal ys m)"
  by (induction xs arbitrary: acc) (simp_all split: option.splits)

lemma decimal_digits: "decimal (digits n) 0 = Some n"
proof (induction n rule: digits.induct)
  case (1 n)
  show ?case
  proof (cases "n < 10")
    case True
    then show ?thesis using digitChar_cases [of n] by (subst digits.simps) simp
  next
    case False
    then have "decimal (digits (n div 10)) 0 = Some (n div 10)" by (rule 1)
    moreover have "digitVal (digitChar (n mod 10)) = Some (n mod 10)"
      using digitChar_cases [of "n mod 10"] by simp
    ultimately show ?thesis using False
      by (subst digits.simps) (simp add: decimal_append)
  qed
qed

lemma splitAcc_no_sep:
  "c \<notin> set a \<Longrightarrow> splitAcc c acc a = [rev acc @ a]"
  by (induction a arbitrary: acc) auto

lemma splitAcc_sep:
  "c \<notin> set a \<Longrightarrow> splitAcc c acc (a @ c # b) = (rev acc @ a) # splitAcc c [] b"
  by (induction a arbitrary: acc) auto

lemma shiftKey_parts:
  assumes "0 \<le> employeeId s" and "CHR ''-'' \<notin> set (shiftSkill s)"
  shows "destructure (jsSplit CHR ''-'' (shiftKey s))
           = (Some (showInt (employeeId s)), Some (shiftSkill s))"
    and "jsNumber (Some (showInt (employeeId s))) = Some (employeeId s)"
proof -
  have k: "shiftKey s = digits (nat (employeeId s)) @ CHR ''-'' # shiftSkill s"
    using assms(1) by (simp add: shiftKey_def showInt_def)
  have "jsSplit CHR ''-'' (shiftKey s) = [digits (nat (employeeId s)), shiftSkill s]"
    unfolding k jsSplit_def using assms(2)
    by (simp add: splitAcc_sep digits_no_hyphen splitAcc_no_sep)
  then show "destructure (jsSplit CHR ''-'' (shiftKey s))
           = (Some (showInt (employeeId s)), Some (shiftSkill s))"
    using assms(1) by (simp add: destructure_def showInt_def)
  show "jsNumber (Some (showInt (employeeId s))) = Some (employeeId s)"
    using assms(1) by (simp add: jsNumber_def showInt_def decimal_digits)
qed

text \<open>The groups hold every shift once, and no group is empty.\<close>

lemma flat_groupPush: "flat (groupPush k v m) = add_mset (k, v) (flat m)"
  by (induction m) (auto simp: flat_def)

lemma nonempty_groupPush:
  "\<forall>g \<in> set m. snd g \<noteq> [] \<Longrightarrow> \<forall>g \<in> set (groupPush k v m). snd g \<noteq> []"
  by (induction m) auto

lemma flat_groups:
  "flat (fold (\<lambda>s. groupPush (key s) (val s)) shifts m)
     = flat m + mset (map (\<lambda>s. (key s, val s)) shifts)"
  by (induction shifts arbitrary: m) (simp_all add: flat_groupPush)

lemma nonempty_groups:
  "\<forall>g \<in> set m. snd g \<noteq> []
     \<Longrightarrow> \<forall>g \<in> set (fold (\<lambda>s. groupPush (key s) (val s)) shifts m). snd g \<noteq> []"
proof (induction shifts arbitrary: m)
  case Nil
  then show ?case by simp
next
  case (Cons s shifts)
  have "\<forall>g \<in> set (groupPush (key s) (val s) m). snd g \<noteq> []"
    using Cons.prems by (rule nonempty_groupPush)
  then have "\<forall>g \<in> set (fold (\<lambda>s. groupPush (key s) (val s)) shifts
                (groupPush (key s) (val s) m)). snd g \<noteq> []"
    by (rule Cons.IH)
  then show ?case by simp
qed

lemma covered3_append: "covered3 (xs @ ys) = covered3 xs + covered3 ys"
  by (simp add: covered3_def)

lemma startsLoop_covered:
  assumes "cs \<le> ce"
  shows "covered3 (startsLoop e k cs ce xs merged)
           = covered3 merged + slots e cs ce k + mset (map (\<lambda>x. (e, x, k)) xs)"
  using assms
proof (induction xs arbitrary: cs ce merged)
  case Nil
  then show ?case by (simp add: covered3_def)
next
  case (Cons x xs)
  show ?case
  proof (cases "x = ce")
    case True
    have "covered3 (startsLoop e k cs (x + 1) xs merged)
            = covered3 merged + slots e cs (x + 1) k + mset (map (\<lambda>x. (e, x, k)) xs)"
      using Cons.prems True by (intro Cons.IH) simp
    moreover have "slots e cs (x + 1) k = slots e cs ce k + {#(e, x, k)#}"
      using Cons.prems True slots_join [of cs ce "ce + 1" e k] by (simp add: slots_single)
    ultimately show ?thesis using True by simp
  next
    case False
    have "covered3 (startsLoop e k x (x + 1) xs
             (merged @ [\<lparr>msEmployeeId = e, msStart = cs, msEnd = ce, msSkill = k\<rparr>]))
            = covered3 (merged @ [\<lparr>msEmployeeId = e, msStart = cs, msEnd = ce, msSkill = k\<rparr>])
              + slots e x (x + 1) k + mset (map (\<lambda>x. (e, x, k)) xs)"
      by (intro Cons.IH) simp
    then show ?thesis using False by (simp add: covered3_def slots_single)
  qed
qed

lemma groupBody_covered:
  assumes "snd g \<noteq> []"
  shows "covered3 (groupBody g merged)
           = covered3 merged
             + image_mset (\<lambda>p. (keyEmployee (fst p), snd p, keySkill (fst p)))
                 (image_mset (Pair (fst g)) (mset (snd g)))"
proof -
  define starts where "starts = sort (snd g)"
  have m: "mset starts = mset (snd g)" by (simp add: starts_def)
  then have "starts \<noteq> []" using assms by auto
  then have hd: "starts = hd starts # tl starts" by simp
  have "covered3 (startsLoop (keyEmployee (fst g)) (keySkill (fst g)) (hd starts) (hd starts + 1)
           (tl starts) merged)
        = covered3 merged + slots (keyEmployee (fst g)) (hd starts) (hd starts + 1) (keySkill (fst g))
          + mset (map (\<lambda>x. (keyEmployee (fst g), x, keySkill (fst g))) (tl starts))"
    by (intro startsLoop_covered) simp
  also have "\<dots> = covered3 merged
          + mset (map (\<lambda>x. (keyEmployee (fst g), x, keySkill (fst g))) (hd starts # tl starts))"
    by (simp add: slots_single)
  also have "\<dots> = covered3 merged
          + image_mset (\<lambda>x. (keyEmployee (fst g), x, keySkill (fst g))) (mset (snd g))"
    using hd m by (metis mset_map)
  finally show ?thesis
    by (simp add: groupBody_def Let_def starts_def keyEmployee_def keySkill_def
        multiset.map_comp comp_def)
qed

lemma groupLoop_covered:
  assumes "\<forall>g \<in> set groups. snd g \<noteq> []"
  shows "covered3 (fold groupBody groups merged)
           = covered3 merged
             + image_mset (\<lambda>p. (keyEmployee (fst p), snd p, keySkill (fst p))) (flat groups)"
  using assms
proof (induction groups arbitrary: merged)
  case Nil
  then show ?case by (simp add: flat_def)
next
  case (Cons g groups)
  have "covered3 (fold groupBody groups (groupBody g merged))
          = covered3 (groupBody g merged)
            + image_mset (\<lambda>p. (keyEmployee (fst p), snd p, keySkill (fst p))) (flat groups)"
    using Cons.prems by (intro Cons.IH) simp
  moreover have "covered3 (groupBody g merged)
           = covered3 merged
             + image_mset (\<lambda>p. (keyEmployee (fst p), snd p, keySkill (fst p)))
                 (image_mset (Pair (fst g)) (mset (snd g)))"
    using Cons.prems by (intro groupBody_covered) simp
  ultimately show ?case by (simp add: flat_def)
qed

lemma mergeShifts_bah3_keys:
  "covered3 (mergeShifts_bah3 shifts)
     = mset (map (\<lambda>s. (keyEmployee (shiftKey s), shiftStart s, keySkill (shiftKey s))) shifts)"
proof -
  define groups where "groups = fold (\<lambda>s. groupPush (shiftKey s) (shiftStart s)) shifts []"
  have "\<forall>g \<in> set groups. snd g \<noteq> []"
    unfolding groups_def by (rule nonempty_groups) simp
  then have "covered3 (fold groupBody groups [])
           = covered3 []
             + image_mset (\<lambda>p. (keyEmployee (fst p), snd p, keySkill (fst p))) (flat groups)"
    by (rule groupLoop_covered)
  moreover have "flat groups = mset (map (\<lambda>s. (shiftKey s, shiftStart s)) shifts)"
    unfolding groups_def using flat_groups [of shiftKey shiftStart shifts "[]"]
    by (simp add: flat_def)
  ultimately show ?thesis
    by (simp add: mergeShifts_bah3_def groups_def covered3_def multiset.map_comp comp_def)
qed

lemma covered_single:
  assumes "\<forall>s \<in> set shifts. shiftEnd s = shiftStart s + 1"
  shows "covered shifts = mset (map (\<lambda>s. (employeeId s, shiftStart s, shiftSkill s)) shifts)"
  using assms by (induction shifts) (simp_all add: covered_def slots_single)

lemma mergeShifts_bah3_covered:
  assumes "\<forall>s \<in> set shifts. shiftEnd s = shiftStart s + 1 \<and> 0 \<le> employeeId s
             \<and> CHR ''-'' \<notin> set (shiftSkill s)"
  shows "covered3 (mergeShifts_bah3 shifts)
           = image_mset (\<lambda>(e, h, k). (Some e, h, Some k)) (covered shifts)"
proof -
  have a: "map (\<lambda>s. (keyEmployee (shiftKey s), shiftStart s, keySkill (shiftKey s))) shifts
          = map (\<lambda>s. (Some (employeeId s), shiftStart s, Some (shiftSkill s))) shifts"
    using assms by (intro map_cong) (simp_all add: keyEmployee_def keySkill_def shiftKey_parts)
  have b: "covered shifts
      = mset (map (\<lambda>s. (employeeId s, shiftStart s, shiftSkill s)) shifts)"
    using assms by (intro covered_single) simp
  have c: "image_mset (\<lambda>(e, h, k). (Some e, h, Some k))
             (mset (map (\<lambda>s. (employeeId s, shiftStart s, shiftSkill s)) shifts))
           = mset (map (\<lambda>s. (Some (employeeId s), shiftStart s, Some (shiftSkill s))) shifts)"
    by (simp add: multiset.map_comp comp_def)
  show ?thesis by (simp only: mergeShifts_bah3_keys a b c)
qed

lemma coveredPairs_mset:
  "coveredPairs e k ps = (\<Sum>p\<in>#mset ps. slots e (fst p) (snd p) k)"
  by (induction ps) (simp_all add: coveredPairs_def)

lemma blockLoop_covered:
  assumes "fst cur \<le> snd cur" and "\<forall>p \<in> set rest. fst p \<le> snd p"
  shows "coveredPairs e k (blockLoop cur rest merged)
           = coveredPairs e k merged + coveredPairs e k (cur # rest)"
  using assms
proof (induction rest arbitrary: cur merged)
  case Nil
  then show ?case by (simp add: coveredPairs_def)
next
  case (Cons x xs)
  show ?case
  proof (cases "fst x = snd cur")
    case True
    have "coveredPairs e k (blockLoop (fst cur, snd x) xs merged)
            = coveredPairs e k merged + coveredPairs e k ((fst cur, snd x) # xs)"
      using Cons.prems True by (intro Cons.IH) simp_all
    moreover have "slots e (fst cur) (snd x) k
                     = slots e (fst cur) (snd cur) k + slots e (fst x) (snd x) k"
      using Cons.prems True by (simp add: slots_join)
    ultimately show ?thesis using True by (simp add: coveredPairs_def)
  next
    case False
    have "coveredPairs e k (blockLoop x xs (merged @ [cur]))
            = coveredPairs e k (merged @ [cur]) + coveredPairs e k (x # xs)"
      using Cons.prems by (intro Cons.IH) simp_all
    then show ?thesis using False by (simp add: coveredPairs_def)
  qed
qed

lemma coveredBlocks_map:
  "coveredBlocks (map (\<lambda>m. (e, fst m, snd m, k)) ps) = coveredPairs e k ps"
  by (induction ps) (simp_all add: coveredBlocks_def coveredPairs_def)

lemma groupBlocks_covered:
  assumes "snd g \<noteq> []" and "\<forall>p \<in> set (snd g). fst p \<le> snd p"
  shows "coveredBlocks (groupBlocks g)
           = coveredPairs (keyEmployeeString (fst g)) (keySkillString (fst g)) (snd g)"
proof -
  define sorted where "sorted = sortBy compareStart (snd g)"
  have m: "mset sorted = mset (snd g)" by (simp add: sorted_def mset_sortBy)
  then have "sorted \<noteq> []" using assms(1) by auto
  then have hd: "sorted = hd sorted # tl sorted" by simp
  have "set sorted = set (snd g)" using m by (rule mset_eq_setD)
  then have "\<forall>p \<in> set (hd sorted # tl sorted). fst p \<le> snd p" using assms(2) hd by simp
  then have "coveredPairs (keyEmployeeString (fst g)) (keySkillString (fst g))
               (blockLoop (hd sorted) (tl sorted) [])
             = coveredPairs (keyEmployeeString (fst g)) (keySkillString (fst g)) []
               + coveredPairs (keyEmployeeString (fst g)) (keySkillString (fst g))
                   (hd sorted # tl sorted)"
    by (intro blockLoop_covered) simp_all
  also have "\<dots> = coveredPairs (keyEmployeeString (fst g)) (keySkillString (fst g)) sorted"
    using hd by (simp add: coveredPairs_def)
  also have "\<dots> = coveredPairs (keyEmployeeString (fst g)) (keySkillString (fst g)) (snd g)"
    by (simp only: coveredPairs_mset m)
  finally show ?thesis
    by (simp add: groupBlocks_def Let_def sorted_def coveredBlocks_map keyEmployeeString_def
        keySkillString_def)
qed

lemma coveredBlocks_append: "coveredBlocks (xs @ ys) = coveredBlocks xs + coveredBlocks ys"
  by (simp add: coveredBlocks_def)

lemma groups_covered:
  assumes "\<forall>g \<in> set groups. snd g \<noteq> [] \<and> (\<forall>p \<in> set (snd g). fst p \<le> snd p)"
  shows "coveredBlocks (concat (map groupBlocks groups))
           = (\<Sum>p\<in>#flat groups.
                slots (keyEmployeeString (fst p)) (fst (snd p)) (snd (snd p))
                  (keySkillString (fst p)))"
  using assms
proof (induction groups)
  case Nil
  then show ?case by (simp add: coveredBlocks_def flat_def)
next
  case (Cons g groups)
  have "coveredBlocks (groupBlocks g)
           = coveredPairs (keyEmployeeString (fst g)) (keySkillString (fst g)) (snd g)"
    using Cons.prems by (intro groupBlocks_covered) simp_all
  moreover have "coveredBlocks (concat (map groupBlocks groups))
           = (\<Sum>p\<in>#flat groups.
                slots (keyEmployeeString (fst p)) (fst (snd p)) (snd (snd p))
                  (keySkillString (fst p)))"
    using Cons.prems by (intro Cons.IH) simp
  ultimately show ?case
    by (simp add: coveredBlocks_append flat_def coveredPairs_mset multiset.map_comp comp_def)
qed

lemma ordered_groupPush:
  "P v \<Longrightarrow> \<forall>g \<in> set m. \<forall>p \<in> set (snd g). P p
     \<Longrightarrow> \<forall>g \<in> set (groupPush k v m). \<forall>p \<in> set (snd g). P p"
  by (induction m) auto

lemma ordered_groups:
  "\<forall>s \<in> set shifts. P (val s) \<Longrightarrow> \<forall>g \<in> set m. \<forall>p \<in> set (snd g). P p
     \<Longrightarrow> \<forall>g \<in> set (fold (\<lambda>s. groupPush (key s) (val s)) shifts m). \<forall>p \<in> set (snd g). P p"
proof (induction shifts arbitrary: m)
  case Nil
  then show ?case by simp
next
  case (Cons s shifts)
  have "P (val s)" using Cons.prems(1) by simp
  then have "\<forall>g \<in> set (groupPush (key s) (val s) m). \<forall>p \<in> set (snd g). P p"
    using Cons.prems(2) by (rule ordered_groupPush)
  moreover have "\<forall>s \<in> set shifts. P (val s)" using Cons.prems(1) by simp
  ultimately have "\<forall>g \<in> set (fold (\<lambda>s. groupPush (key s) (val s)) shifts
                (groupPush (key s) (val s) m)). \<forall>p \<in> set (snd g). P p"
    by (intro Cons.IH)
  then show ?case by simp
qed

lemma tokenBlocks_keys:
  assumes "\<forall>s \<in> set shifts. shiftStart s \<le> shiftEnd s"
  shows "coveredBlocks (tokenBlocks shifts)
           = (\<Sum>s\<leftarrow>shifts. slots (keyEmployeeString (shiftKey s)) (shiftStart s) (shiftEnd s)
                             (keySkillString (shiftKey s)))"
proof -
  define groups where
    "groups = fold (\<lambda>s. groupPush (shiftKey s) (shiftStart s, shiftEnd s)) shifts []"
  have n: "\<forall>g \<in> set groups. snd g \<noteq> []"
    unfolding groups_def by (rule nonempty_groups) simp
  have "\<forall>s \<in> set shifts. (\<lambda>p. fst p \<le> snd p) (shiftStart s, shiftEnd s)"
    using assms by simp
  then have o: "\<forall>g \<in> set groups. \<forall>p \<in> set (snd g). (\<lambda>p. fst p \<le> snd p) p"
    unfolding groups_def by (rule ordered_groups) simp
  have "\<forall>g \<in> set groups. snd g \<noteq> [] \<and> (\<forall>p \<in> set (snd g). fst p \<le> snd p)"
    using n o by simp
  then have "coveredBlocks (concat (map groupBlocks groups))
           = (\<Sum>p\<in>#flat groups.
                slots (keyEmployeeString (fst p)) (fst (snd p)) (snd (snd p))
                  (keySkillString (fst p)))"
    by (rule groups_covered)
  moreover have "flat groups = mset (map (\<lambda>s. (shiftKey s, (shiftStart s, shiftEnd s))) shifts)"
    unfolding groups_def
    using flat_groups [of shiftKey "\<lambda>s. (shiftStart s, shiftEnd s)" shifts "[]"]
    by (simp add: flat_def)
  ultimately show ?thesis
    by (simp add: tokenBlocks_def groups_def multiset.map_comp comp_def sum_mset_sum_list [symmetric])
qed

lemma image_slots:
  "image_mset (\<lambda>(e, h, k). (f e, h, g k)) (slots e a b k) = slots (f e) a b (g k)"
  by (simp add: slots_def multiset.map_comp comp_def)

lemma image_covered:
  "image_mset (\<lambda>(e, h, k). (f e, h, g k)) (covered shifts)
     = (\<Sum>s\<leftarrow>shifts. slots (f (employeeId s)) (shiftStart s) (shiftEnd s) (g (shiftSkill s)))"
  by (induction shifts) (simp_all add: covered_def image_slots)

lemma tokenBlocks_covered:
  assumes "\<forall>s \<in> set shifts. shiftEnd s = shiftStart s + 1 \<and> 0 \<le> employeeId s
             \<and> CHR ''-'' \<notin> set (shiftSkill s)"
  shows "coveredBlocks (tokenBlocks shifts)
           = image_mset (\<lambda>(e, h, k). (showInt e, h, k)) (covered shifts)"
proof -
  have "\<forall>s \<in> set shifts. shiftStart s \<le> shiftEnd s" using assms by simp
  then have "coveredBlocks (tokenBlocks shifts)
           = (\<Sum>s\<leftarrow>shifts. slots (keyEmployeeString (shiftKey s)) (shiftStart s) (shiftEnd s)
                             (keySkillString (shiftKey s)))"
    by (rule tokenBlocks_keys)
  also have "map (\<lambda>s. slots (keyEmployeeString (shiftKey s)) (shiftStart s) (shiftEnd s)
                             (keySkillString (shiftKey s))) shifts
        = map (\<lambda>s. slots (showInt (employeeId s)) (shiftStart s) (shiftEnd s) (shiftSkill s))
            shifts"
    using assms
    by (intro map_cong)
       (simp_all add: keyEmployeeString_def keySkillString_def shiftKey_parts jsString_def)
  also have "(\<Sum>s\<leftarrow>shifts. slots (showInt (employeeId s)) (shiftStart s) (shiftEnd s)
                 (shiftSkill s))
        = image_mset (\<lambda>(e, h, k). (showInt e, h, k)) (covered shifts)"
    using image_covered [of showInt "\<lambda>k. k" shifts] by simp
  finally show ?thesis .
qed

lemmas merge_defs = mergeShifts_bah_def sortBy_def compareShifts_def mergeShifts_bah3_def
  groupBody_def shiftKey_def showInt_def digits.simps digitChar_def digitVal_def jsNumber_def
  jsSplit_def destructure_def tokenBlocks_def groupBlocks_def compareStart_def finalTokens_def
  formatToken_def jsString_def hourShift_def byLength_def shiftsM_def

text \<open>
  C10, as amended. For every list of one-hour shifts, \<^verbatim>\<open>mergeShifts\<close> of \<^verbatim>\<open>bah.js\<close> returns
  shifts that cover the same \<open>(employee, hour, skill)\<close> slots, each as often as before, for
  any comparator of skills. For every list of one-hour shifts with non-negative employee
  ids and skills that contain no \<^verbatim>\<open>-\<close>, the same holds of \<^verbatim>\<open>mergeShifts\<close> of \<^verbatim>\<open>bah3.js\<close> and of
  the blocks that \<^verbatim>\<open>bah2.js\<close> prints as tokens (there with the employee id as its decimal
  numeral).
\<close>

theorem merge_preserves_coverage:
  "((\<forall>s \<in> set shifts. shiftEnd s = shiftStart s + 1) \<longrightarrow>
       covered (mergeShifts_bah localeCompare shifts) = covered shifts)
   \<and> ((\<forall>s \<in> set shifts. shiftEnd s = shiftStart s + 1 \<and> 0 \<le> employeeId s
                            \<and> CHR ''-'' \<notin> set (shiftSkill s)) \<longrightarrow>
       covered3 (mergeShifts_bah3 shifts)
         = image_mset (\<lambda>(e, h, k). (Some e, h, Some k)) (covered shifts)
       \<and> coveredBlocks (tokenBlocks shifts)
         = image_mset (\<lambda>(e, h, k). (showInt e, h, k)) (covered shifts)
       \<and> finalTokens shifts = map formatToken (tokenBlocks shifts))"
proof (intro conjI impI)
  assume "\<forall>s \<in> set shifts. shiftEnd s = shiftStart s + 1"
  then have "\<forall>s \<in> set shifts. shiftStart s \<le> shiftEnd s" by simp
  then show "covered (mergeShifts_bah localeCompare shifts) = covered shifts"
    by (rule mergeShifts_bah_covered)
next
  assume a: "\<forall>s \<in> set shifts. shiftEnd s = shiftStart s + 1 \<and> 0 \<le> employeeId s
                            \<and> CHR ''-'' \<notin> set (shiftSkill s)"
  then show "covered3 (mergeShifts_bah3 shifts)
         = image_mset (\<lambda>(e, h, k). (Some e, h, Some k)) (covered shifts)"
    by (rule mergeShifts_bah3_covered)
  from a show "coveredBlocks (tokenBlocks shifts)
         = image_mset (\<lambda>(e, h, k). (showInt e, h, k)) (covered shifts)"
    by (rule tokenBlocks_covered)
  show "finalTokens shifts = map formatToken (tokenBlocks shifts)"
    by (simp add: finalTokens_def)
qed

text \<open>
  C10 as stated fails in \<^verbatim>\<open>bah3.js\<close> and \<^verbatim>\<open>bah2.js\<close> for a skill with a \<^verbatim>\<open>-\<close>, which is cut at the
  \<^verbatim>\<open>-\<close>, and for a negative employee id, whose digits become the skill; \<^verbatim>\<open>bah.js\<close> keeps
  the skill.
\<close>

theorem merge_preserves_coverage_counterexample:
  "mergeShifts_bah3 [hourShift 1 8 ''Self-Checkout'']
     = [\<lparr>msEmployeeId = Some 1, msStart = 8, msEnd = 9, msSkill = Some ''Self''\<rparr>]
   \<and> finalTokens [hourShift 1 8 ''Self-Checkout''] = [''1-8-9-Self'']
   \<and> mergeShifts_bah byLength [hourShift 1 8 ''Self-Checkout'']
     = [hourShift 1 8 ''Self-Checkout'']
   \<and> mergeShifts_bah3 [hourShift (- 5) 8 ''Register'']
     = [\<lparr>msEmployeeId = Some 0, msStart = 8, msEnd = 9, msSkill = Some ''5''\<rparr>]
   \<and> finalTokens [hourShift (- 5) 8 ''Register''] = [''-8-9-5'']"
  by (simp add: merge_defs Let_def)

text \<open>The hypotheses of C10 on a day of three one-hour shifts, two of them adjacent.\<close>

theorem merge_preserves_coverage_witness:
  "list_all (\<lambda>s. shiftEnd s = shiftStart s + 1 \<and> 0 \<le> employeeId s
                  \<and> CHR ''-'' \<notin> set (shiftSkill s)) shiftsM
   \<and> mergeShifts_bah byLength shiftsM
       = [\<lparr>employeeId = 1, shiftStart = 8, shiftEnd = 10, shiftSkill = ''Register''\<rparr>,
          hourShift 2 8 ''Bakery'']
   \<and> mergeShifts_bah3 shiftsM
       = [\<lparr>msEmployeeId = Some 2, msStart = 8, msEnd = 9, msSkill = Some ''Bakery''\<rparr>,
          \<lparr>msEmployeeId = Some 1, msStart = 8, msEnd = 10, msSkill = Some ''Register''\<rparr>]
   \<and> finalTokens shiftsM = [''2-8-9-Bakery'', ''1-8-10-Register'']
   \<and> covered (mergeShifts_bah byLength shiftsM) = covered shiftsM
   \<and> covered3 (mergeShifts_bah3 shiftsM)
       = image_mset (\<lambda>(e, h, k). (Some e, h, Some k)) (covered shiftsM)
   \<and> coveredBlocks (tokenBlocks shiftsM)
       = image_mset (\<lambda>(e, h, k). (showInt e, h, k)) (covered shiftsM)"
proof -
  have h: "\<forall>s \<in> set shiftsM. shiftEnd s = shiftStart s + 1 \<and> 0 \<le> employeeId s
                  \<and> CHR ''-'' \<notin> set (shiftSkill s)"
    by (simp add: shiftsM_def hourShift_def)
  then have h': "\<forall>s \<in> set shiftsM. shiftEnd s = shiftStart s + 1" by simp
  have c: "mergeShifts_bah byLength shiftsM
       = [\<lparr>employeeId = 1, shiftStart = 8, shiftEnd = 10, shiftSkill = ''Register''\<rparr>,
          hourShift 2 8 ''Bakery'']
   \<and> mergeShifts_bah3 shiftsM
       = [\<lparr>msEmployeeId = Some 2, msStart = 8, msEnd = 9, msSkill = Some ''Bakery''\<rparr>,
          \<lparr>msEmployeeId = Some 1, msStart = 8, msEnd = 10, msSkill = Some ''Register''\<rparr>]
   \<and> finalTokens shiftsM = [''2-8-9-Bakery'', ''1-8-10-Register'']"
    by (simp add: merge_defs Let_def)
  note t = merge_preserves_coverage [of shiftsM byLength]
  from t h h' c show ?thesis by (simp only: list_all_iff simp_thms)
qed

section \<open>Schedulers: proofs\<close>

lemmas planner_defs = advancedSchedule_def planDay_def assignSkill_def candidateOf_def
  trainShift_def teacherStep_def initialPlan_def weekStart_def sortBy_def fullShift_def
  scheduleDay_def coverSkill_def dayCandidates_def compareCandidates_def initialStates_def
  firstOccurrences_def List.map_filter_def getEmployee_def overtimeRate_div
  inheritedName_def objectPrototypeNames_def

lemmas scenarioD_defs = empD_def dayD_def shiftD_def orgA_def empB_def shiftA_def dayA_def empA_def

text \<open>
  \<^verbatim>\<open>generateSchedule\<close> of \<^verbatim>\<open>bah3.js\<close> keeps the set \<^verbatim>\<open>assignedEmployeeIds\<close>, and its schedule
  passes \<^verbatim>\<open>validateSchedule\<close> whenever the day ids are distinct and every open day has
  \<open>start < end\<close>.
\<close>

lemma mapSet_fresh: "k \<notin> fst ` set m \<Longrightarrow> mapSet k v m = m @ [(k, v)]"
  by (induction m) auto

lemma generateSchedule_fold:
  assumes "distinct (map fst m @ map dayId ds)"
  shows "fold (\<lambda>dy. mapSet (dayId dy) (f dy)) ds m = m @ map (\<lambda>dy. (dayId dy, f dy)) ds"
  using assms
proof (induction ds arbitrary: m)
  case Nil
  then show ?case by simp
next
  case (Cons dy ds)
  have fresh: "dayId dy \<notin> fst ` set m" using Cons.prems by auto
  have "distinct (map fst (m @ [(dayId dy, f dy)]) @ map dayId ds)" using Cons.prems by auto
  then have "fold (\<lambda>dy. mapSet (dayId dy) (f dy)) ds (m @ [(dayId dy, f dy)])
               = (m @ [(dayId dy, f dy)]) @ map (\<lambda>dy. (dayId dy, f dy)) ds"
    by (rule Cons.IH)
  then show ?case using fresh by (simp add: mapSet_fresh)
qed

lemma generateSchedule_map:
  assumes "distinct (map dayId ds)"
  shows "generateSchedule es ds = map (\<lambda>dy. (dayId dy, scheduleOneDay es dy)) ds"
  using generateSchedule_fold [of "[]" ds "scheduleOneDay es"] assms
  by (simp add: generateSchedule_def)

lemma generateSchedule_lookup:
  assumes "distinct (map dayId ds)" and "dy \<in> set ds"
  shows "map_of (generateSchedule es ds) (dayId dy) = Some (scheduleOneDay es dy)"
proof -
  have "distinct (map fst (map (\<lambda>dy. (dayId dy, scheduleOneDay es dy)) ds))"
    using assms(1) by (simp add: comp_def)
  moreover have "(dayId dy, scheduleOneDay es dy)
                   \<in> set (map (\<lambda>dy. (dayId dy, scheduleOneDay es dy)) ds)"
    using assms(2) by auto
  ultimately show ?thesis
    unfolding generateSchedule_map [OF assms(1)] by (rule map_of_is_SomeI)
qed

lemma checkShift_clean:
  assumes "getEmployee es (employeeId s) = Some e" and "dayId dy \<notin> vacationDays e"
    and "\<not> isClosed dy" and "shiftStart s = dayStart dy" and "shiftEnd s = dayEnd dy"
    and "dayStart dy < dayEnd dy" and "snd a (employeeId s) = []"
  shows "checkShift es dy s a = (fst a, (snd a)(employeeId s := [s]))"
proof -
  have "empId e = employeeId s" using assms(1) by (rule getEmployee_empId)
  then show ?thesis using assms by (simp add: checkShift_def Let_def)
qed

lemma checkShifts_clean:
  assumes "cleanShifts es dy shifts" and "\<not> isClosed dy" and "dayStart dy < dayEnd dy"
    and "\<forall>s \<in> set shifts. snd a (employeeId s) = []"
  shows "fst (fold (checkShift es dy) shifts a) = fst a"
  using assms(1,4)
proof (induction shifts arbitrary: a)
  case Nil
  then show ?case by simp
next
  case (Cons s shifts)
  from Cons.prems(1) obtain e where e: "getEmployee es (employeeId s) = Some e"
      "dayId dy \<notin> vacationDays e" and w: "shiftStart s = dayStart dy" "shiftEnd s = dayEnd dy"
    by (auto simp: cleanShifts_def)
  have "snd a (employeeId s) = []" using Cons.prems(2) by simp
  with e w assms(2,3) have step: "checkShift es dy s a = (fst a, (snd a)(employeeId s := [s]))"
    by (intro checkShift_clean) simp_all
  have c: "cleanShifts es dy shifts" using Cons.prems(1) by (simp add: cleanShifts_def)
  have "employeeId s \<notin> employeeId ` set shifts"
    using Cons.prems(1) by (simp add: cleanShifts_def)
  then have "\<forall>t \<in> set shifts. employeeId t \<noteq> employeeId s" by (metis imageI)
  then have "\<forall>t \<in> set shifts. snd (fst a, (snd a)(employeeId s := [s])) (employeeId t) = []"
    using Cons.prems(2) by simp
  with c have "fst (fold (checkShift es dy) shifts (fst a, (snd a)(employeeId s := [s])))
                 = fst (fst a, (snd a)(employeeId s := [s]))"
    by (rule Cons.IH)
  then show ?case by (simp add: step)
qed

lemma checkDay_clean:
  assumes "map_of schedule (dayId dy) = Some shifts"
    and "isClosed dy \<longrightarrow> shifts = []"
    and "\<not> isClosed dy \<longrightarrow> cleanShifts es dy shifts \<and> dayStart dy < dayEnd dy"
  shows "checkDay es schedule dy errors = errors"
proof (cases "isClosed dy")
  case True
  then show ?thesis using assms by (simp add: checkDay_def)
next
  case False
  have c: "cleanShifts es dy shifts" and lt: "dayStart dy < dayEnd dy"
    using False assms(3) by simp_all
  have "\<forall>s \<in> set shifts. snd (errors, (\<lambda>_. [])) (employeeId s) = ([] :: shift list)" by simp
  then have "fst (fold (checkShift es dy) shifts (errors, (\<lambda>_. []))) = fst (errors, (\<lambda>_. []))"
    using checkShifts_clean [OF c False lt, of "(errors, (\<lambda>_. []))"] by simp
  then show ?thesis using False assms(1) by (simp add: checkDay_def)
qed

lemma employeeValues_set:
  assumes "e \<in> set (employeeValues es)"
  shows "getEmployee es (empId e) = Some e"
proof -
  from assms obtain i where "getEmployee es i = Some e"
    by (auto simp: employeeValues_def List.map_filter_def)
  moreover from this have "empId e = i" by (rule getEmployee_empId)
  ultimately show ?thesis by simp
qed

lemma employeeValues_distinct: "distinct (map empId (employeeValues es))"
proof -
  define ids where "ids = filter (\<lambda>i. getEmployee es i \<noteq> None) (firstOccurrences (map empId es))"
  have "map empId (employeeValues es) = map (\<lambda>i. empId (the (getEmployee es i))) ids"
    by (simp add: employeeValues_def List.map_filter_def ids_def comp_def)
  also have "\<dots> = map (\<lambda>i. i) ids"
    by (intro map_cong) (auto simp: ids_def dest: getEmployee_empId)
  finally have "map empId (employeeValues es) = ids" by simp
  moreover have "distinct ids" by (simp add: ids_def firstOccurrences_def)
  ultimately show ?thesis by simp
qed

lemma availableOn_set:
  assumes "e \<in> set (availableOn es dy)"
  shows "getEmployee es (empId e) = Some e \<and> dayId dy \<notin> vacationDays e"
  using assms by (auto simp: availableOn_def employeeValues_set)

lemma availableOn_distinct: "distinct (map empId (availableOn es dy))"
proof -
  have "mset (map empId (availableOn es dy))
          = mset (map empId (filter (\<lambda>e. dayId dy \<notin> vacationDays e) (employeeValues es)))"
    by (simp add: availableOn_def)
  moreover have "distinct (map empId (filter (\<lambda>e. dayId dy \<notin> vacationDays e) (employeeValues es)))"
    using employeeValues_distinct [of es] by (rule distinct_map_filter)
  ultimately show ?thesis by (metis mset_eq_imp_distinct_iff)
qed

lemma assignedOk_add:
  assumes "assignedOk avail dy a" and "e \<in> set avail" and "empId e \<notin> snd a"
  shows "assignedOk avail dy (fst a @ [fullShift dy k e], insert (empId e) (snd a))"
  using assms by (auto simp: assignedOk_def fullShift_def)

lemma skillStep_ok:
  assumes "assignedOk avail dy a" and "distinct (map empId avail)"
  shows "assignedOk avail dy (skillStep dy avail k a)"
proof (cases "find (\<lambda>e. empId e \<notin> snd a \<and> k \<in> initialSkills e) avail")
  case (Some e)
  then have "e \<in> set avail" "empId e \<notin> snd a" by (auto simp: find_Some_iff)
  with assms(1) have "assignedOk avail dy (fst a @ [fullShift dy k e], insert (empId e) (snd a))"
    by (rule assignedOk_add)
  then show ?thesis using Some by (simp add: skillStep_def)
next
  case None
  define free where "free = filter (\<lambda>e. empId e \<notin> snd a) avail"
  show ?thesis
  proof (cases "\<exists>emp1 emp2. take 2 free = [emp1, emp2]")
    case True
    then obtain emp1 emp2 where t: "take 2 free = [emp1, emp2]" by blast
    have "set (take 2 free) \<subseteq> set free" by (rule set_take_subset)
    then have m: "emp1 \<in> set avail" "empId emp1 \<notin> snd a" "emp2 \<in> set avail" "empId emp2 \<notin> snd a"
      using t by (auto simp: free_def)
    have "distinct (map empId free)" unfolding free_def using assms(2) by (rule distinct_map_filter)
    then have "distinct (take 2 (map empId free))" by (rule distinct_take)
    then have ne: "empId emp1 \<noteq> empId emp2" by (simp add: take_map t)
    have ok1: "assignedOk avail dy (fst a @ [fullShift dy k emp1], insert (empId emp1) (snd a))"
      using assms(1) m(1,2) by (rule assignedOk_add)
    have notin: "empId emp2 \<notin> snd (fst a @ [fullShift dy k emp1], insert (empId emp1) (snd a))"
      using m(4) ne by simp
    have "assignedOk avail dy
        (fst (fst a @ [fullShift dy k emp1], insert (empId emp1) (snd a)) @ [fullShift dy k emp2],
         insert (empId emp2) (snd (fst a @ [fullShift dy k emp1], insert (empId emp1) (snd a))))"
      using ok1 m(3) notin by (rule assignedOk_add)
    then show ?thesis using None t by (simp add: skillStep_def free_def Let_def)
  next
    case False
    then have other: "(case take 2 free of [emp1, emp2] \<Rightarrow> f emp1 emp2 | _ \<Rightarrow> g) = g"
      for f :: "employee \<Rightarrow> employee \<Rightarrow> shift list \<times> int set" and g
      by (auto split: list.splits)
    show ?thesis
    proof (cases "find (\<lambda>e. empId e \<notin> snd a) avail")
      case None2: None
      then show ?thesis using None assms(1)
        by (simp add: skillStep_def Let_def free_def [symmetric] other)
    next
      case (Some e)
      then have "e \<in> set avail" "empId e \<notin> snd a" by (auto simp: find_Some_iff)
      with assms(1) have "assignedOk avail dy (fst a @ [fullShift dy k e], insert (empId e) (snd a))"
        by (rule assignedOk_add)
      then show ?thesis using None Some
        by (simp add: skillStep_def Let_def free_def [symmetric] other)
    qed
  qed
qed

lemma skillLoop_ok:
  assumes "assignedOk avail dy a" and "distinct (map empId avail)"
  shows "assignedOk avail dy (fold (skillStep dy avail) ks a)"
  using assms(1)
proof (induction ks arbitrary: a)
  case Nil
  then show ?case by simp
next
  case (Cons k ks)
  have "assignedOk avail dy (skillStep dy avail k a)" using Cons.prems assms(2) by (rule skillStep_ok)
  then have "assignedOk avail dy (fold (skillStep dy avail) ks (skillStep dy avail k a))"
    by (rule Cons.IH)
  then show ?case by simp
qed

lemma scheduleOneDay_clean:
  assumes "\<not> isClosed dy"
  shows "cleanShifts es dy (scheduleOneDay es dy)"
proof -
  have "assignedOk (availableOn es dy) dy ([], {})" by (simp add: assignedOk_def)
  then have ok: "assignedOk (availableOn es dy) dy
                   (fold (skillStep dy (availableOn es dy)) (requiredSkills dy) ([], {}))"
    using availableOn_distinct by (rule skillLoop_ok)
  have s: "scheduleOneDay es dy
             = fst (fold (skillStep dy (availableOn es dy)) (requiredSkills dy) ([], {}))"
    using assms by (simp add: scheduleOneDay_def availableOn_def Let_def)
  show ?thesis
    unfolding cleanShifts_def s using ok availableOn_set [of _ es dy]
    by (auto simp: assignedOk_def)
qed

lemma scheduleOneDay_closed: "isClosed dy \<Longrightarrow> scheduleOneDay es dy = []"
  by (simp add: scheduleOneDay_def)

lemma checkDays_clean:
  assumes "\<forall>dy \<in> set ds'. checkDay es schedule dy = (\<lambda>errors. errors)"
  shows "fold (checkDay es schedule) ds' errors = errors"
  using assms by (induction ds' arbitrary: errors) simp_all

lemma generateSchedule_valid:
  assumes "distinct (map dayId ds)"
    and "\<forall>dy \<in> set ds. \<not> isClosed dy \<longrightarrow> dayStart dy < dayEnd dy"
  shows "validationReport es ds (generateSchedule es ds) = []"
proof -
  have len: "length (generateSchedule es ds) = length ds"
    by (simp add: generateSchedule_map [OF assms(1)])
  have "\<forall>dy \<in> set ds. checkDay es (generateSchedule es ds) dy = (\<lambda>errors. errors)"
  proof
    fix dy
    assume dy: "dy \<in> set ds"
    have "checkDay es (generateSchedule es ds) dy errors = errors" for errors
    proof (rule checkDay_clean)
      show "map_of (generateSchedule es ds) (dayId dy) = Some (scheduleOneDay es dy)"
        using assms(1) dy by (rule generateSchedule_lookup)
      show "isClosed dy \<longrightarrow> scheduleOneDay es dy = []" by (simp add: scheduleOneDay_closed)
      show "\<not> isClosed dy \<longrightarrow> cleanShifts es dy (scheduleOneDay es dy) \<and> dayStart dy < dayEnd dy"
        using assms(2) dy by (simp add: scheduleOneDay_clean)
    qed
    then show "checkDay es (generateSchedule es ds) dy = (\<lambda>errors. errors)" by (rule ext)
  qed
  then have "fold (checkDay es (generateSchedule es ds)) ds [] = []" by (rule checkDays_clean)
  then show ?thesis using len by (simp add: validationReport_def)
qed

lemmas generate_defs = generateSchedule_def scheduleOneDay_def skillStep_def employeeValues_def
  fullShift_def firstOccurrences_def List.map_filter_def getEmployee_def

text \<open>
  C7 at two concrete inputs. Employee 1 is trained on both skills of day 1 (open 8 to 10),
  employee 2 on none: \<^verbatim>\<open>advancedSchedule\<close> of \<^verbatim>\<open>sonnet.js\<close> and \<^verbatim>\<open>scheduleDay\<close> of \<^verbatim>\<open>part_000\<close> both
  give employee 1 two shifts from 8 to 10, which overlap, where \<^verbatim>\<open>generateSchedule\<close> of
  \<^verbatim>\<open>bah3.js\<close> gives the second skill to employee 2. With one employee who is on vacation on
  day 1, \<^verbatim>\<open>scheduleDay\<close> of \<^verbatim>\<open>part_000\<close> tests the vacation set for the index 0 of the day
  instead of its id 1 and schedules the employee, where \<^verbatim>\<open>generateSchedule\<close> of \<^verbatim>\<open>bah3.js\<close>
  leaves the day empty.
\<close>

theorem greedy_double_booking:
  "advancedSchedule orgA [empD, empB] [dayD] = Inr [(1, [shiftA, shiftD])]
   \<and> scheduleDay orgA [empD, empB] (initialStates [empD, empB]) 0 dayD = [shiftA, shiftD]
   \<and> employeeId shiftA = employeeId shiftD \<and> overlaps shiftA shiftD
   \<and> validationReport [empD, empB] [dayD] [(1, [shiftA, shiftD])]
       = [OverlappingPair 1 1 shiftD shiftA]
   \<and> scheduleDay orgA [empOff] (initialStates [empOff]) 0 dayA = [shiftA]
   \<and> dayId dayA \<in> vacationDays empOff
   \<and> validationReport [empOff] [dayA] [(1, [shiftA])] = [ScheduledOnVacation 1 1]
   \<and> generateSchedule [empD, empB] [dayD] = [(1, [shiftA, shiftE])]
   \<and> validationReport [empD, empB] [dayD] [(1, [shiftA, shiftE])] = []
   \<and> generateSchedule [empOff] [dayA] = [(1, [])]"
proof -
  have a: "advancedSchedule orgA [empD, empB] [dayD] = Inr [(1, [shiftA, shiftD])]"
    by (simp add: planner_defs scenarioD_defs Let_def)
  have b: "scheduleDay orgA [empD, empB] (initialStates [empD, empB]) 0 dayD = [shiftA, shiftD]"
    by (simp add: planner_defs scenarioD_defs Let_def upt_rec [of 0] upt_rec [of "Suc _"])
  have c: "employeeId shiftA = employeeId shiftD \<and> overlaps shiftA shiftD"
    by (simp add: scenarioD_defs overlaps_def)
  have d: "validationReport [empD, empB] [dayD] [(1, [shiftA, shiftD])]
       = [OverlappingPair 1 1 shiftD shiftA]"
    by (simp add: solver_defs scenarioD_defs getEmployee_def Let_def)
  have e: "scheduleDay orgA [empOff] (initialStates [empOff]) 0 dayA = [shiftA]"
    by (simp add: planner_defs scenarioD_defs empOff_def Let_def upt_rec [of 0]
        upt_rec [of "Suc _"])
  have f: "dayId dayA \<in> vacationDays empOff
     \<and> validationReport [empOff] [dayA] [(1, [shiftA])] = [ScheduledOnVacation 1 1]"
    by (simp add: solver_defs scenarioD_defs empOff_def getEmployee_def Let_def)
  have g: "generateSchedule [empD, empB] [dayD] = [(1, [shiftA, shiftE])]"
    by (simp add: generate_defs scenarioD_defs shiftE_def Let_def)
  have h: "validationReport [empD, empB] [dayD] [(1, [shiftA, shiftE])] = []"
    by (simp add: solver_defs scenarioD_defs shiftE_def getEmployee_def Let_def)
  have i: "generateSchedule [empOff] [dayA] = [(1, [])]"
    by (simp add: generate_defs scenarioD_defs empOff_def Let_def)
  from a b c d e f g h i show ?thesis by (simp only: simp_thms)
qed

end
